theory Spec2Isabelle
  imports Main "HOL-Library.Char_ord" "HOL-Library.List_Lexorder" "HOL-Library.Code_Target_Nat"
begin

section \<open>JavaScript values used by the proxy\<close>

text \<open>
  Strings are lists of 8-bit characters. Node hands the request target of a CONNECT line to
  the program as a one-byte-per-character string, so every character of \<open>req.url\<close> is a
  \<^typ>\<open>char\<close>; of the text decoded from a TLS session the model covers the characters
  below 256. Numbers that count or measure (the id counter, clock readings) are integers;
  the counter's behaviour at the limit of exact doubles is written out in \<open>js_incr\<close>, and
  what \<open>parseInt\<close> returns is a \<open>number\<close>.
\<close>

text \<open>\<open>x || d\<close> on an optional string: \<open>undefined\<close> and the empty string are falsy.\<close>

definition or_else :: "string option \<Rightarrow> string \<Rightarrow> string" where
  "or_else x d = (case x of None \<Rightarrow> d | Some s \<Rightarrow> if s = [] then d else s)"

text \<open>A template literal renders \<open>undefined\<close> as the text \<open>undefined\<close>.\<close>

definition template :: "string option \<Rightarrow> string" where
  "template x = (case x of None \<Rightarrow> ''undefined'' | Some s \<Rightarrow> s)"

text \<open>
  \<open>s.split(sep)\<close> for a non-empty separator: the pieces between the occurrences of \<open>sep\<close>,
  scanning from the left; the result always has at least one piece.
\<close>

fun split_acc :: "string \<Rightarrow> string \<Rightarrow> string \<Rightarrow> string list" where
  "split_acc sep acc [] = [rev acc]"
| "split_acc sep acc (c # cs) =
     (if sep \<noteq> [] \<and> take (length sep) (c # cs) = sep
      then rev acc # split_acc sep [] (drop (length sep - 1) cs)
      else split_acc sep (c # acc) cs)"

definition split_str :: "string \<Rightarrow> string \<Rightarrow> string list" where
  "split_str sep s = split_acc sep [] s"

text \<open>\<open>xs.join(sep)\<close>.\<close>

fun join_str :: "string \<Rightarrow> string list \<Rightarrow> string" where
  "join_str sep [] = []"
| "join_str sep [x] = x"
| "join_str sep (x # y # ys) = x @ sep @ join_str sep (y # ys)"

text \<open>
  White space as \<open>parseInt\<close> and \<open>trim\<close> strip it, among the characters below 256: TAB, LF,
  VT, FF, CR, SP and NBSP.
\<close>

definition is_ws :: "char \<Rightarrow> bool" where
  "is_ws c = (of_char c \<in> {9, 10, 11, 12, 13, 32, 160 :: nat})"

definition trim :: "string \<Rightarrow> string" where
  "trim s = rev (dropWhile is_ws (rev (dropWhile is_ws s)))"

text \<open>
  \<open>toLowerCase\<close> on the characters below 256: the ASCII capitals, and the capitals from
  U+00C0 to U+00DE but for the sign U+00D7, are moved up by 32.
\<close>

definition lower_char :: "char \<Rightarrow> char" where
  "lower_char c =
     (let k = (of_char c :: nat)
      in if (65 \<le> k \<and> k \<le> 90) \<or> (192 \<le> k \<and> k \<le> 222 \<and> k \<noteq> 215) then char_of (k + 32)
         else c)"

definition toLowerCase :: "string \<Rightarrow> string" where
  "toLowerCase s = map lower_char s"

text \<open>The decimal rendering of a non-negative integer, as \<open>`${n}`\<close> prints it.\<close>

definition digit_char :: "nat \<Rightarrow> char" where
  "digit_char d = char_of (48 + d)"

fun show_nat :: "nat \<Rightarrow> string" where
  "show_nat n = (if n < 10 then [digit_char n] else show_nat (n div 10) @ [digit_char (n mod 10)])"

declare show_nat.simps [simp del]

definition show_int :: "int \<Rightarrow> string" where
  "show_int i = (if i < 0 then CHR ''-'' # show_nat (nat (- i)) else show_nat (nat i))"

text \<open>
  A JavaScript number that stands for an integer: NaN, an integer of magnitude up to
  \<open>2^53\<close>, which a double holds exactly, or a double of greater magnitude (infinity
  included), whose value the model does not say: \<open>parseInt\<close> rounds there, and may drop
  digits after the twentieth.
\<close>

datatype number = NaN | Num int | Inexact

text \<open>
  \<open>parseInt(x)\<close> with no radix. The argument is \<open>None\<close> for \<open>undefined\<close>, whose text
  \<open>undefined\<close> has no digit. Leading white space is skipped, one sign is read, a prefix
  \<open>0x\<close> or \<open>0X\<close> selects radix 16, and the longest run of digits of the radix is the
  value; whatever follows is ignored.
\<close>

definition digit_of :: "nat \<Rightarrow> char \<Rightarrow> nat option" where
  "digit_of radix c =
     (let k = (of_char c :: nat);
          v = (if 48 \<le> k \<and> k \<le> 57 then Some (k - 48)
               else if 97 \<le> k \<and> k \<le> 122 then Some (k - 87)
               else if 65 \<le> k \<and> k \<le> 90 then Some (k - 55)
               else None)
      in case v of None \<Rightarrow> None | Some d \<Rightarrow> if d < radix then Some d else None)"

fun digits_prefix :: "nat \<Rightarrow> string \<Rightarrow> nat list" where
  "digits_prefix radix [] = []"
| "digits_prefix radix (c # cs) =
     (case digit_of radix c of None \<Rightarrow> [] | Some d \<Rightarrow> d # digits_prefix radix cs)"

definition digits_value :: "nat \<Rightarrow> nat list \<Rightarrow> nat" where
  "digits_value radix ds = foldl (\<lambda>a d. a * radix + d) 0 ds"

definition parseInt :: "string option \<Rightarrow> number" where
  "parseInt x =
     (case x of
        None \<Rightarrow> NaN
      | Some s \<Rightarrow>
          (let s1 = dropWhile is_ws s;
               sign = (if s1 \<noteq> [] \<and> hd s1 = CHR ''-'' then - 1 else (1 :: int));
               s2 = (if s1 \<noteq> [] \<and> (hd s1 = CHR ''+'' \<or> hd s1 = CHR ''-'') then tl s1 else s1);
               hex = (take 2 s2 = ''0x'' \<or> take 2 s2 = ''0X'');
               radix = (if hex then 16 else 10);
               s3 = (if hex then drop 2 s2 else s2);
               ds = digits_prefix radix s3;
               v = sign * int (digits_value radix ds)
           in if ds = [] then NaN
              else if - (2 ^ 53) \<le> v \<and> v \<le> 2 ^ 53 then Num v
              else Inexact))"

text \<open>
  \<open>++n\<close> on a JavaScript number that holds a count: exact up to \<open>2^53\<close>, where adding one
  rounds back to the same value.
\<close>

definition js_incr :: "nat \<Rightarrow> nat" where
  "js_incr n = (if n < 2 ^ 53 then n + 1 else n)"

section \<open>The certificate module\<close>

text \<open>
  The file system is a map from paths to nodes, together with the list of the commands
  \<open>execSync\<close> has run. What a command does to the files, and whether it fails, is the
  platform's: the parameter \<open>sh\<close> gives, for the command text and the files before it, the
  files after it and the error of a failed command. \<open>path.join\<close> is the POSIX one: the
  non-empty parts are joined with \<open>/\<close> and the result is normalised (empty and \<open>.\<close>
  segments dropped, \<open>..\<close> resolved). Permissions are not modelled.
\<close>

datatype node = Dir | File string

type_synonym files = "string \<Rightarrow> node option"

type_synonym shell = "string \<Rightarrow> files \<Rightarrow> files \<times> string option"

record disk =
  entries :: files
  commands :: "string list"

record CertPaths =
  key :: string
  cert :: string
  dir :: string

record HostCertPaths =
  hkey :: string
  hcert :: string

type_synonym 'a io = "disk \<Rightarrow> (string + 'a) \<times> disk"

definition bind_io :: "'a io \<Rightarrow> ('a \<Rightarrow> 'b io) \<Rightarrow> 'b io" where
  "bind_io m f d = (case m d of (Inl e, d') \<Rightarrow> (Inl e, d') | (Inr x, d') \<Rightarrow> f x d')"

fun normalize_segments :: "bool \<Rightarrow> string list \<Rightarrow> string list \<Rightarrow> string list" where
  "normalize_segments rel acc [] = rev acc"
| "normalize_segments rel acc (s # ss) =
     (if s = [] \<or> s = ''.'' then normalize_segments rel acc ss
      else if s = ''..'' then
        (if acc \<noteq> [] \<and> hd acc \<noteq> ''..'' then normalize_segments rel (tl acc) ss
         else if rel then normalize_segments rel (''..'' # acc) ss
         else normalize_segments rel acc ss)
      else normalize_segments rel (s # acc) ss)"

definition normalize :: "string \<Rightarrow> string" where
  "normalize p =
     (if p = [] then ''.''
      else
        (let absolute = (hd p = CHR ''/'');
             trailing = (last p = CHR ''/'');
             q = join_str ''/'' (normalize_segments (\<not> absolute) [] (split_str ''/'' p))
         in if q = [] then (if absolute then ''/'' else if trailing then ''./'' else ''.'')
            else (if absolute then ''/'' else []) @ q @ (if trailing then ''/'' else [])))"

definition path_join :: "string list \<Rightarrow> string" where
  "path_join ps =
     (let joined = join_str ''/'' (filter (\<lambda>s. s \<noteq> []) ps)
      in if joined = [] then ''.'' else normalize joined)"

definition CERT_DIR :: "string \<Rightarrow> string" where
  "CERT_DIR home = path_join [home, ''.devlens'', ''certs'']"

definition CA_KEY :: "string \<Rightarrow> string" where
  "CA_KEY home = path_join [CERT_DIR home, ''ca.key'']"

definition CA_CERT :: "string \<Rightarrow> string" where
  "CA_CERT home = path_join [CERT_DIR home, ''ca.crt'']"

definition existsSync :: "string \<Rightarrow> disk \<Rightarrow> bool" where
  "existsSync p d = (entries d p \<noteq> None)"

definition mkdirSync :: "string \<Rightarrow> unit io" where
  "mkdirSync p d = (Inr (), d\<lparr>entries := (entries d)(p \<mapsto> Dir)\<rparr>)"

definition execSync :: "shell \<Rightarrow> string \<Rightarrow> unit io" where
  "execSync sh cmd d =
     (case sh cmd (entries d) of
        (fs, err) \<Rightarrow>
          ((case err of None \<Rightarrow> Inr () | Some e \<Rightarrow> Inl e),
           \<lparr>entries = fs, commands = commands d @ [cmd]\<rparr>))"

definition writeFileSync :: "string \<Rightarrow> string \<Rightarrow> unit io" where
  "writeFileSync p text d =
     (if entries d p = Some Dir then (Inl ''EISDIR'', d)
      else (Inr (), d\<lparr>entries := (entries d)(p \<mapsto> File text)\<rparr>))"

definition unlinkSync :: "string \<Rightarrow> unit io" where
  "unlinkSync p d =
     (case entries d p of
        Some (File _) \<Rightarrow> (Inr (), d\<lparr>entries := (entries d)(p := None)\<rparr>)
      | Some Dir \<Rightarrow> (Inl ''EPERM'', d)
      | None \<Rightarrow> (Inl ''ENOENT'', d))"

definition readFileSync :: "string \<Rightarrow> disk \<Rightarrow> string + string" where
  "readFileSync p d =
     (case entries d p of
        Some (File text) \<Rightarrow> Inr text
      | Some Dir \<Rightarrow> Inl ''EISDIR''
      | None \<Rightarrow> Inl ''ENOENT'')"

definition ensureCertDir :: "string \<Rightarrow> unit io" where
  "ensureCertDir home d =
     (if \<not> existsSync (CERT_DIR home) d then mkdirSync (CERT_DIR home) d else (Inr (), d))"

definition genrsa_cmd :: "string \<Rightarrow> string" where
  "genrsa_cmd out = ''openssl genrsa -out \"'' @ out @ ''\" 2048''"

definition ca_req_cmd :: "string \<Rightarrow> string" where
  "ca_req_cmd home =
     ''openssl req -x509 -new -nodes -key \"'' @ CA_KEY home @
     ''\" -sha256 -days 1825 -out \"'' @ CA_CERT home @
     ''\" -subj \"/C=US/ST=State/L=City/O=DevLens/CN=DevLens CA\"''"

definition generateCACert :: "shell \<Rightarrow> string \<Rightarrow> CertPaths io" where
  "generateCACert sh home =
     bind_io (ensureCertDir home) (\<lambda>_ d.
       if existsSync (CA_KEY home) d \<and> existsSync (CA_CERT home) d
       then (Inr \<lparr>key = CA_KEY home, cert = CA_CERT home, dir = CERT_DIR home\<rparr>, d)
       else
         bind_io (execSync sh (genrsa_cmd (CA_KEY home))) (\<lambda>_.
         bind_io (execSync sh (ca_req_cmd home)) (\<lambda>_ d'.
           (Inr \<lparr>key = CA_KEY home, cert = CA_CERT home, dir = CERT_DIR home\<rparr>, d'))) d)"

definition csr_cmd :: "string \<Rightarrow> string \<Rightarrow> string \<Rightarrow> string" where
  "csr_cmd hostKey csrPath hostname =
     ''openssl req -new -key \"'' @ hostKey @ ''\" -out \"'' @ csrPath @
     ''\" -subj \"/C=US/ST=State/L=City/O=DevLens/CN='' @ hostname @ ''\"''"

definition ext_text :: "string \<Rightarrow> string" where
  "ext_text hostname =
     ''authorityKeyIdentifier=keyid,issuer'' @ [CHR 0x0A] @
     ''basicConstraints=CA:FALSE'' @ [CHR 0x0A] @
     ''keyUsage = digitalSignature, nonRepudiation, keyEncipherment, dataEncipherment'' @ [CHR 0x0A] @
     ''subjectAltName = @alt_names'' @ [CHR 0x0A] @
     [CHR 0x0A] @
     ''[alt_names]'' @ [CHR 0x0A] @
     ''DNS.1 = '' @ hostname @ [CHR 0x0A]"

definition sign_cmd :: "string \<Rightarrow> string \<Rightarrow> string \<Rightarrow> string \<Rightarrow> string" where
  "sign_cmd home csrPath hostCert extPath =
     ''openssl x509 -req -in \"'' @ csrPath @ ''\" -CA \"'' @ CA_CERT home @
     ''\" -CAkey \"'' @ CA_KEY home @ ''\" -CAcreateserial -out \"'' @ hostCert @
     ''\" -days 825 -sha256 -extfile \"'' @ extPath @ ''\"''"

definition generateHostCert :: "shell \<Rightarrow> string \<Rightarrow> string \<Rightarrow> HostCertPaths io" where
  "generateHostCert sh home hostname =
     bind_io (ensureCertDir home) (\<lambda>_ d.
       let hostKey = path_join [CERT_DIR home, hostname @ ''.key''];
           hostCert = path_join [CERT_DIR home, hostname @ ''.crt'']
       in if existsSync hostKey d \<and> existsSync hostCert d
          then (Inr \<lparr>hkey = hostKey, hcert = hostCert\<rparr>, d)
          else
            let csrPath = path_join [CERT_DIR home, hostname @ ''.csr''];
                extPath = path_join [CERT_DIR home, hostname @ ''.ext'']
            in
            bind_io (execSync sh (genrsa_cmd hostKey)) (\<lambda>_.
            bind_io (execSync sh (csr_cmd hostKey csrPath hostname)) (\<lambda>_.
            bind_io (writeFileSync extPath (ext_text hostname)) (\<lambda>_.
            bind_io (execSync sh (sign_cmd home csrPath hostCert extPath)) (\<lambda>_.
            bind_io (unlinkSync csrPath) (\<lambda>_.
            bind_io (unlinkSync extPath) (\<lambda>_ d'.
              (Inr \<lparr>hkey = hostKey, hcert = hostCert\<rparr>, d'))))))) d)"

definition getCACertPath :: "string \<Rightarrow> string" where
  "getCACertPath home = CA_CERT home"

definition isCACertGenerated :: "string \<Rightarrow> disk \<Rightarrow> bool" where
  "isCACertGenerated home d = existsSync (CA_CERT home) d"

section \<open>The proxy server: data\<close>

text \<open>
  A header value is a string or, for a repeated header, an array of strings. A header
  object is an association list in insertion order.
\<close>

datatype hval = Str string | Arr "string list"

type_synonym headers = "(string \<times> hval) list"

text \<open>
  The interface \<open>NetworkRequest\<close>. Its fields \<open>id\<close> and \<open>method\<close> are \<open>id'\<close> and \<open>method'\<close>
  here (both names are taken in Isabelle), and the fields of its
  \<open>response\<close> that share a name with the request's carry the prefix \<open>res\<close>.
\<close>

record NetworkResponse =
  status :: int
  statusText :: string
  res_headers :: headers
  res_body :: "string option"
  duration :: int

record NetworkRequest =
  id' :: string
  method' :: string
  url :: string
  headers :: headers
  body :: "string option"
  timestamp :: int
  response :: "NetworkResponse option"

text \<open>What \<open>emit\<close> publishes. An event carries the exchange as it is when emitted.\<close>

datatype event =
    RequestEv NetworkRequest
  | ResponseEv NetworkRequest
  | ErrorEv string string

text \<open>
  Node's objects, as far as the proxy uses them. \<open>ServerResponse\<close> is the reply to the
  client of a plain HTTP request: \<open>writeHead\<close> sends the status line and the headers; it
  throws \<open>ERR_HTTP_HEADERS_SENT\<close> when they were sent before, and
  \<open>ERR_HTTP_INVALID_STATUS_CODE\<close> for a status outside 100 to 999. \<open>end\<close> writes a last
  chunk and finishes the reply. \<open>ClientRequest\<close> is a request of the proxy to the upstream server.
  \<open>IncomingMessage\<close> is the head of the upstream's response.
\<close>

record ServerResponse =
  headersSent :: bool
  statusCode :: "int option"
  head_headers :: headers
  written :: "string list"
  finished :: bool

definition new_ServerResponse :: ServerResponse where
  "new_ServerResponse =
     \<lparr>headersSent = False, statusCode = None, head_headers = [], written = [], finished = False\<rparr>"

definition writeHead :: "int \<Rightarrow> headers \<Rightarrow> ServerResponse \<Rightarrow> string + ServerResponse" where
  "writeHead code hs r =
     (if headersSent r then Inl ''ERR_HTTP_HEADERS_SENT''
      else if code < 100 \<or> 999 < code then Inl ''ERR_HTTP_INVALID_STATUS_CODE''
      else Inr (r\<lparr>headersSent := True, statusCode := Some code, head_headers := hs\<rparr>))"

definition end_with :: "string \<Rightarrow> ServerResponse \<Rightarrow> ServerResponse" where
  "end_with text r = r\<lparr>headersSent := True, written := written r @ [text], finished := True\<rparr>"

datatype port = PortNum number | PortStr string

record RequestOptions =
  hostname :: string
  port :: port
  path :: "string option"
  req_method :: "string option"
  req_headers :: headers

record ClientRequest =
  options :: RequestOptions
  secure :: bool
  sent :: "string list"
  ended :: bool

record IncomingMessage =
  in_statusCode :: "int option"
  in_statusMessage :: "string option"
  in_headers :: headers

text \<open>
  What a socket has been given to send: a chunk the proxy wrote itself, a chunk relayed by
  \<open>pipe\<close>, or a chunk written into the TLS session that the proxy terminates.
\<close>

datatype chunk = Wrote string | Piped string | Encrypted string

definition reply200 :: string where
  "reply200 =
     ''HTTP/1.1 200 Connection Established'' @ [CHR 0x0D, CHR 0x0A] @
     ''Proxy-agent: DevLens'' @ [CHR 0x0D, CHR 0x0A] @
     [CHR 0x0D, CHR 0x0A]"

text \<open>
  The variables each handler invocation closes over. A connection is created by
  \<open>handleRequest\<close> (a plain HTTP request), by \<open>handleConnect\<close> (a CONNECT request) or by
  \<open>handleHttpsRequest\<close> (a request read from a terminated TLS session), and every one of
  them is created together with its id.
\<close>

datatype stage = Reading | Rejected | Forwarding | Streaming | Completed | Failed

record http_conn =
  h_id :: string
  h_startTime :: int
  h_url :: string
  h_method :: "string option"
  h_headers :: headers
  h_body :: string
  h_stage :: stage
  h_request :: "NetworkRequest option"
  clientRes :: ServerResponse
  proxyReq :: "ClientRequest option"
  proxyRes :: "IncomingMessage option"
  responseBody :: string

record connect_conn =
  c_hostname :: string
  c_targetPort :: number
  c_head :: string
  c_request :: NetworkRequest
  clientSocket :: "chunk list"
  clientEnded :: bool
  clientFailed :: bool
  dial :: "(number \<times> string) option"
  connected :: bool
  serverSocket :: "chunk list"
  serverEnded :: bool
  serverFailed :: bool
  tls :: "(string \<times> string) option"
  tlsFailed :: bool

record child_conn =
  k_parent :: nat
  k_startTime :: int
  k_request :: NetworkRequest
  k_stage :: stage
  k_proxyReq :: "ClientRequest option"
  k_proxyRes :: "IncomingMessage option"
  k_responseBody :: string

datatype conn = Plain http_conn | Tunnel connect_conn | Child child_conn

record ProxyServer =
  server :: "int option"
  requestId :: nat
  caCert :: "(string \<times> string) option"

text \<open>
  The process: the proxy object, the connections in the order of their creation, the
  events emitted so far, the disk, and the exception that no handler caught, if any.
\<close>

record world =
  proxy :: ProxyServer
  conns :: "conn list"
  events :: "event list"
  fs :: disk
  uncaught :: "string option"

text \<open>
  What the platform decides: the home directory, the effect of shell commands, which
  strings \<open>new URL\<close> accepts and what it makes of them, which key and certificate texts
  \<open>new tls.TLSSocket\<close> accepts, and what \<open>http.request\<close> and \<open>https.request\<close> throw for
  the options they are given (a method or a header name that is not a token, a header value
  or a path with a character that is not allowed, a port out of range), if anything.
\<close>

record URL =
  url_hostname :: string
  url_port :: string
  pathname :: string
  search :: string

record platform =
  homedir :: string
  shell_of :: shell
  new_URL :: "string \<Rightarrow> URL option"
  tls_accepts :: "string \<Rightarrow> string \<Rightarrow> bool"
  request_throws :: "RequestOptions \<Rightarrow> string option"

text \<open>
  What the event loop delivers to the proxy: a request or a CONNECT arriving at the
  listener, or an event on an object a handler is registered on, named by the index of its
  connection. Clock readings are the values \<open>Date.now()\<close> returns while the handler runs;
  \<open>Date.now()\<close> reads the wall clock, so a later reading can be the smaller one.
\<close>

datatype action =
    Incoming "string option" "string option" headers int
  | ReqData nat string
  | ReqEnd nat
  | ProxyRes nat "int option" "string option" headers
  | ProxyResData nat string
  | ProxyResEnd nat int
  | ProxyReqError nat string
  | Connect "string option" headers string int int
  | ServerConnect nat int
  | ServerError nat string
  | ClientError nat
  | ClientData nat string
  | ServerData nat string
  | TlsData nat string int
  | TlsError nat

section \<open>The proxy server: handlers\<close>

definition crlf :: string where
  "crlf = [CHR 0x0D, CHR 0x0A]"

definition new_ProxyServer :: ProxyServer where
  "new_ProxyServer = \<lparr>server = None, requestId = 0, caCert = None\<rparr>"

text \<open>\<open>start\<close>: MITM is switched off, then the listener is created.\<close>

definition start :: "int \<Rightarrow> ProxyServer \<Rightarrow> ProxyServer" where
  "start p s = s\<lparr>caCert := None, server := Some p\<rparr>"

definition stop :: "ProxyServer \<Rightarrow> ProxyServer" where
  "stop s = s\<lparr>server := None\<rparr>"

definition ProxyServer_getCACertPath :: "string \<Rightarrow> ProxyServer \<Rightarrow> string option" where
  "ProxyServer_getCACertPath home s =
     (case caCert s of None \<Rightarrow> None | Some _ \<Rightarrow> Some (getCACertPath home))"

text \<open>The module's variable \<open>proxyInstance\<close> and the functions exported around it.\<close>

definition startProxy :: "int \<Rightarrow> ProxyServer option \<Rightarrow> ProxyServer option" where
  "startProxy p inst = Some (start p new_ProxyServer)"

definition stopProxy :: "ProxyServer option \<Rightarrow> ProxyServer option" where
  "stopProxy inst = None"

definition getProxyCACertPath :: "string \<Rightarrow> ProxyServer option \<Rightarrow> string option" where
  "getProxyCACertPath home inst =
     (case inst of
        None \<Rightarrow> None
      | Some s \<Rightarrow>
          (case ProxyServer_getCACertPath home s of
             None \<Rightarrow> None
           | Some p \<Rightarrow> if p = [] then None else Some p))"

definition emit :: "event \<Rightarrow> world \<Rightarrow> world" where
  "emit e w = w\<lparr>events := events w @ [e]\<rparr>"

definition set_conn :: "nat \<Rightarrow> conn \<Rightarrow> world \<Rightarrow> world" where
  "set_conn h c w = w\<lparr>conns := (conns w)[h := c]\<rparr>"

definition conn_at :: "world \<Rightarrow> nat \<Rightarrow> conn option" where
  "conn_at w h = (if h < length (conns w) then Some (conns w ! h) else None)"

text \<open>\<open>`req_${++this.requestId}`\<close>: the counter is advanced and the new value rendered.\<close>

definition next_id :: "world \<Rightarrow> string \<times> world" where
  "next_id w =
     (let n = js_incr (requestId (proxy w))
      in (''req_'' @ show_nat n, w\<lparr>proxy := (proxy w)\<lparr>requestId := n\<rparr>\<rparr>))"

subsection \<open>Plain HTTP\<close>

definition handleRequest :: "string option \<Rightarrow> string option \<Rightarrow> headers \<Rightarrow> int \<Rightarrow> world \<Rightarrow> world" where
  "handleRequest m u hs now w =
     (case next_id w of
        (i, w1) \<Rightarrow>
          w1\<lparr>conns := conns w1 @
            [Plain \<lparr>h_id = i, h_startTime = now, h_url = or_else u [], h_method = m,
                    h_headers = hs, h_body = [], h_stage = Reading, h_request = None,
                    clientRes = new_ServerResponse, proxyReq = None, proxyRes = None,
                    responseBody = []\<rparr>]\<rparr>)"

definition clientReq_data :: "nat \<Rightarrow> string \<Rightarrow> http_conn \<Rightarrow> world \<Rightarrow> world" where
  "clientReq_data h data c w = set_conn h (Plain (c\<lparr>h_body := h_body c @ data\<rparr>)) w"

definition clientReq_end :: "platform \<Rightarrow> nat \<Rightarrow> http_conn \<Rightarrow> world \<Rightarrow> world" where
  "clientReq_end P h c w =
     (let request =
            \<lparr>id' = h_id c, method' = or_else (h_method c) ''GET'', url = h_url c,
             headers = h_headers c,
             body = (if h_body c = [] then None else Some (h_body c)),
             timestamp = h_startTime c, response = None\<rparr>;
          w1 = emit (RequestEv request) w;
          c1 = c\<lparr>h_request := Some request\<rparr>
      in case new_URL P (h_url c) of
           None \<Rightarrow>
             (case writeHead 400 [] (clientRes c1) of
                Inl e \<Rightarrow> (set_conn h (Plain (c1\<lparr>h_stage := Rejected\<rparr>)) w1)\<lparr>uncaught := Some e\<rparr>
              | Inr r \<Rightarrow>
                  set_conn h
                    (Plain (c1\<lparr>h_stage := Rejected, clientRes := end_with ''Invalid URL'' r\<rparr>)) w1)
         | Some t \<Rightarrow>
             (let opts =
                    \<lparr>hostname = url_hostname t,
                     port = (if url_port t = [] then PortNum (Num 80) else PortStr (url_port t)),
                     path = Some (pathname t @ search t),
                     req_method = h_method c, req_headers = h_headers c\<rparr>;
                  pr = \<lparr>options = opts, secure = False,
                        sent = (if h_body c = [] then [] else [h_body c]), ended = True\<rparr>
              in case request_throws P opts of
                   Some e \<Rightarrow>
                     (set_conn h (Plain (c1\<lparr>h_stage := Failed\<rparr>)) w1)\<lparr>uncaught := Some e\<rparr>
                 | None \<Rightarrow>
                     set_conn h (Plain (c1\<lparr>h_stage := Forwarding, proxyReq := Some pr\<rparr>)) w1))"

text \<open>The callback of \<open>http.request\<close>: the head of the upstream's response has arrived.\<close>

definition proxyReq_response :: "nat \<Rightarrow> IncomingMessage \<Rightarrow> http_conn \<Rightarrow> world \<Rightarrow> world" where
  "proxyReq_response h res c w =
     (let code = (case in_statusCode res of None \<Rightarrow> 500 | Some k \<Rightarrow> if k = 0 then 500 else k);
          c1 = c\<lparr>proxyRes := Some res, responseBody := [], h_stage := Streaming\<rparr>
      in case writeHead code (in_headers res) (clientRes c) of
           Inl e \<Rightarrow> (set_conn h (Plain c1) w)\<lparr>uncaught := Some e\<rparr>
         | Inr r \<Rightarrow> set_conn h (Plain (c1\<lparr>clientRes := r\<rparr>)) w)"

text \<open>A chunk of the upstream's body: kept for the capture, and piped to the client.\<close>

definition proxyRes_data :: "nat \<Rightarrow> string \<Rightarrow> http_conn \<Rightarrow> world \<Rightarrow> world" where
  "proxyRes_data h data c w =
     set_conn h
       (Plain (c\<lparr>responseBody := responseBody c @ data,
                 clientRes := (clientRes c)\<lparr>written := written (clientRes c) @ [data]\<rparr>\<rparr>)) w"

definition capture :: "IncomingMessage option \<Rightarrow> string \<Rightarrow> int \<Rightarrow> NetworkResponse" where
  "capture res text d =
     \<lparr>status = (case res of None \<Rightarrow> 0 | Some r \<Rightarrow> (case in_statusCode r of None \<Rightarrow> 0 | Some k \<Rightarrow> k)),
      statusText = (case res of None \<Rightarrow> [] | Some r \<Rightarrow> or_else (in_statusMessage r) []),
      res_headers = (case res of None \<Rightarrow> [] | Some r \<Rightarrow> in_headers r),
      res_body = Some text,
      duration = d\<rparr>"

definition proxyRes_end :: "nat \<Rightarrow> int \<Rightarrow> http_conn \<Rightarrow> world \<Rightarrow> world" where
  "proxyRes_end h now c w =
     (case h_request c of
        None \<Rightarrow> w
      | Some request \<Rightarrow>
          (let request' =
                 request\<lparr>response :=
                   Some (capture (proxyRes c) (responseBody c) (now - h_startTime c))\<rparr>
           in set_conn h
                (Plain (c\<lparr>h_request := Some request', h_stage := Completed,
                          clientRes := (clientRes c)\<lparr>finished := True\<rparr>\<rparr>))
                (emit (ResponseEv request') w)))"

definition proxyReq_error :: "nat \<Rightarrow> string \<Rightarrow> http_conn \<Rightarrow> world \<Rightarrow> world" where
  "proxyReq_error h msg c w =
     (let w1 = emit (ErrorEv (h_id c) msg) w
      in case writeHead 502 [] (clientRes c) of
           Inl e \<Rightarrow> (set_conn h (Plain (c\<lparr>h_stage := Failed\<rparr>)) w1)\<lparr>uncaught := Some e\<rparr>
         | Inr r \<Rightarrow>
             set_conn h (Plain (c\<lparr>h_stage := Failed, clientRes := end_with ''Proxy Error'' r\<rparr>)) w1)"

subsection \<open>CONNECT\<close>

text \<open>Lines 143 and 144: the host and the port that \<open>net.connect\<close> is given.\<close>

definition connect_target :: "string option \<Rightarrow> string \<times> number" where
  "connect_target u =
     (let parts = split_str '':'' (or_else u []);
          port_text = (if 1 < length parts then Some (parts ! 1) else None)
      in (hd parts,
          (case parseInt port_text of
             NaN \<Rightarrow> Num 443
           | Num k \<Rightarrow> if k = 0 then Num 443 else Num k
           | Inexact \<Rightarrow> Inexact)))"

text \<open>
  \<open>net.connect\<close> takes a port from 0 to 65535; for any other number it throws
  \<open>ERR_SOCKET_BAD_PORT\<close> at once: no socket exists and no handler is registered. Nothing
  around the call in \<open>handleHttpsTunnel\<close> catches it, nor around the calls of
  \<open>handleHttpsTunnel\<close>, the one in the \<open>catch\<close> block of \<open>handleHttpsWithMitm\<close> included.
\<close>

definition port_ok :: "number \<Rightarrow> bool" where
  "port_ok p = (case p of Num k \<Rightarrow> 0 \<le> k \<and> k \<le> 65535 | _ \<Rightarrow> False)"

definition handleHttpsTunnel :: "nat \<Rightarrow> connect_conn \<Rightarrow> world \<Rightarrow> world" where
  "handleHttpsTunnel h c w =
     (if port_ok (c_targetPort c)
      then set_conn h (Tunnel (c\<lparr>dial := Some (c_targetPort c, c_hostname c)\<rparr>)) w
      else (set_conn h (Tunnel c) w)\<lparr>uncaught := Some ''ERR_SOCKET_BAD_PORT''\<rparr>)"

definition established :: "string \<Rightarrow> int \<Rightarrow> NetworkResponse" where
  "established text d =
     \<lparr>status = 200, statusText = text, res_headers = [], res_body = None, duration = d\<rparr>"

definition handleHttpsWithMitm :: "platform \<Rightarrow> nat \<Rightarrow> int \<Rightarrow> connect_conn \<Rightarrow> world \<Rightarrow> world" where
  "handleHttpsWithMitm P h now c w =
     (case generateHostCert (shell_of P) (homedir P) (c_hostname c) (fs w) of
        (Inl e, d) \<Rightarrow> handleHttpsTunnel h c (w\<lparr>fs := d\<rparr>)
      | (Inr hostCert, d) \<Rightarrow>
          (let c1 = c\<lparr>clientSocket := clientSocket c @ [Wrote reply200]\<rparr>;
               w1 = w\<lparr>fs := d\<rparr>
           in case readFileSync (hkey hostCert) d of
                Inl e \<Rightarrow> handleHttpsTunnel h c1 w1
              | Inr k \<Rightarrow>
                  (case readFileSync (hcert hostCert) d of
                     Inl e \<Rightarrow> handleHttpsTunnel h c1 w1
                   | Inr ce \<Rightarrow>
                       if \<not> tls_accepts P k ce then handleHttpsTunnel h c1 w1
                       else
                         (let request' =
                                (c_request c)\<lparr>response :=
                                  Some (established ''Connection Established (MITM)''
                                          (now - timestamp (c_request c)))\<rparr>
                          in emit (ResponseEv request')
                               (set_conn h
                                  (Tunnel (c1\<lparr>tls := Some (k, ce), c_request := request'\<rparr>)) w1)))))"

definition handleConnect ::
    "platform \<Rightarrow> string option \<Rightarrow> headers \<Rightarrow> string \<Rightarrow> int \<Rightarrow> int \<Rightarrow> world \<Rightarrow> world" where
  "handleConnect P u hs hd_bytes now now2 w =
     (case next_id w of
        (i, w1) \<Rightarrow>
          (let request =
                 \<lparr>id' = i, method' = ''CONNECT'', url = ''https://'' @ template u, headers = hs,
                  body = None, timestamp = now, response = None\<rparr>;
               c = \<lparr>c_hostname = fst (connect_target u), c_targetPort = snd (connect_target u),
                    c_head = hd_bytes, c_request = request, clientSocket = [],
                    clientEnded = False, clientFailed = False, dial = None, connected = False,
                    serverSocket = [], serverEnded = False, serverFailed = False, tls = None,
                    tlsFailed = False\<rparr>;
               h = length (conns w1);
               w2 = emit (RequestEv request) (w1\<lparr>conns := conns w1 @ [Tunnel c]\<rparr>)
           in if caCert (proxy w) \<noteq> None then handleHttpsWithMitm P h now2 c w2
              else handleHttpsTunnel h c w2))"

text \<open>The callback of \<open>net.connect\<close>: the upstream socket is connected.\<close>

definition server_connect :: "nat \<Rightarrow> int \<Rightarrow> connect_conn \<Rightarrow> world \<Rightarrow> world" where
  "server_connect h now c w =
     (let request' =
            (c_request c)\<lparr>response :=
              Some (established ''Connection Established (Tunnel)''
                      (now - timestamp (c_request c)))\<rparr>
      in emit (ResponseEv request')
           (set_conn h
              (Tunnel (c\<lparr>clientSocket := clientSocket c @ [Wrote reply200],
                        serverSocket := serverSocket c @ [Wrote (c_head c)],
                        connected := True, c_request := request'\<rparr>)) w))"

definition server_error :: "nat \<Rightarrow> string \<Rightarrow> connect_conn \<Rightarrow> world \<Rightarrow> world" where
  "server_error h msg c w =
     set_conn h (Tunnel (c\<lparr>serverFailed := True, clientEnded := True\<rparr>))
       (emit (ErrorEv (id' (c_request c)) msg) w)"

definition client_error :: "nat \<Rightarrow> connect_conn \<Rightarrow> world \<Rightarrow> world" where
  "client_error h c w = set_conn h (Tunnel (c\<lparr>clientFailed := True, serverEnded := True\<rparr>)) w"

definition tls_error :: "nat \<Rightarrow> connect_conn \<Rightarrow> world \<Rightarrow> world" where
  "tls_error h c w = set_conn h (Tunnel (c\<lparr>tlsFailed := True, clientEnded := True\<rparr>)) w"

text \<open>The two pipes of a connected tunnel.\<close>

definition client_data :: "nat \<Rightarrow> string \<Rightarrow> connect_conn \<Rightarrow> world \<Rightarrow> world" where
  "client_data h data c w =
     set_conn h (Tunnel (c\<lparr>serverSocket := serverSocket c @ [Piped data]\<rparr>)) w"

definition server_data :: "nat \<Rightarrow> string \<Rightarrow> connect_conn \<Rightarrow> world \<Rightarrow> world" where
  "server_data h data c w =
     set_conn h (Tunnel (c\<lparr>clientSocket := clientSocket c @ [Piped data]\<rparr>)) w"

subsection \<open>Requests inside a terminated TLS session\<close>

text \<open>
  \<open>headers[k] = v\<close> on the object \<open>headers\<close>, which starts as \<open>{}\<close>. An object lists its
  keys that are array indices first, in ascending order, then the other keys in the order
  of their creation; assigning to an existing key keeps its place. Assigning a string to
  the key \<open>__proto__\<close> changes nothing.
\<close>

definition is_index :: "string \<Rightarrow> bool" where
  "is_index k =
     (k \<noteq> [] \<and> list_all (\<lambda>c. digit_of 10 c \<noteq> None) k \<and> (k = ''0'' \<or> hd k \<noteq> CHR ''0'') \<and>
      digits_value 10 (digits_prefix 10 k) \<le> 4294967294)"

definition index_of :: "string \<Rightarrow> nat" where
  "index_of k = digits_value 10 (digits_prefix 10 k)"

fun insert_index :: "string \<Rightarrow> hval \<Rightarrow> headers \<Rightarrow> headers" where
  "insert_index k v [] = [(k, v)]"
| "insert_index k v ((k', v') # hs) =
     (if is_index k' \<and> index_of k' < index_of k then (k', v') # insert_index k v hs
      else (k, v) # (k', v') # hs)"

definition set_header :: "string \<Rightarrow> hval \<Rightarrow> headers \<Rightarrow> headers" where
  "set_header k v hs =
     (if k = ''__proto__'' then hs
      else if k \<in> fst ` set hs then map (\<lambda>(k', v'). if k' = k then (k', v) else (k', v')) hs
      else if is_index k then insert_index k v hs
      else hs @ [(k, v)])"

text \<open>
  The header loop of lines 267 to 276 over the lines after the first, from index \<open>i\<close>: the
  result is the header object and \<open>bodyStart\<close>, which stays 0 when no line is empty.
\<close>

fun parse_headers :: "string list \<Rightarrow> nat \<Rightarrow> headers \<Rightarrow> headers \<times> nat" where
  "parse_headers [] i hs = (hs, 0)"
| "parse_headers (l # ls) i hs =
     (if l = [] then (hs, i + 1)
      else
        (let parts = split_str '':'' l;
             k = hd parts
         in parse_headers ls (i + 1)
              (if k \<noteq> [] then set_header (toLowerCase k) (Str (trim (join_str '':'' (tl parts)))) hs
               else hs)))"

definition handleHttpsRequest ::
    "platform \<Rightarrow> string \<Rightarrow> number \<Rightarrow> string \<Rightarrow> nat \<Rightarrow> int \<Rightarrow> world \<Rightarrow> world" where
  "handleHttpsRequest P host p data parent now w =
     (case next_id w of
        (i, w1) \<Rightarrow>
          (let lines = split_str crlf data;
               ws = split_str '' '' (hd lines);
               m = hd ws;
               pth = (if 1 < length ws then Some (ws ! 1) else None);
               parsed = parse_headers (tl lines) 1 [];
               text = join_str crlf (drop (snd parsed) lines);
               request =
                 \<lparr>id' = i, method' = or_else (Some m) ''GET'', url = ''https://'' @ host @ template pth,
                  headers = fst parsed, body = (if text = [] then None else Some text),
                  timestamp = now, response = None\<rparr>;
               opts = \<lparr>hostname = host, port = PortNum p, path = pth, req_method = Some m,
                       req_headers = fst parsed\<rparr>;
               pr = \<lparr>options = opts, secure = True,
                     sent = (if text = [] then [] else [text]), ended = True\<rparr>;
               k = \<lparr>k_parent = parent, k_startTime = now, k_request = request,
                    k_stage = Forwarding, k_proxyReq = Some pr, k_proxyRes = None,
                    k_responseBody = []\<rparr>
           in case request_throws P opts of
                Some e \<Rightarrow>
                  (emit (RequestEv request)
                     (w1\<lparr>conns := conns w1 @
                        [Child (k\<lparr>k_stage := Failed, k_proxyReq := None\<rparr>)]\<rparr>))
                  \<lparr>uncaught := Some e\<rparr>
              | None \<Rightarrow> emit (RequestEv request) (w1\<lparr>conns := conns w1 @ [Child k]\<rparr>)))"

definition child_response :: "nat \<Rightarrow> IncomingMessage \<Rightarrow> child_conn \<Rightarrow> world \<Rightarrow> world" where
  "child_response h res c w =
     set_conn h (Child (c\<lparr>k_proxyRes := Some res, k_responseBody := [], k_stage := Streaming\<rparr>)) w"

definition child_data :: "nat \<Rightarrow> string \<Rightarrow> child_conn \<Rightarrow> world \<Rightarrow> world" where
  "child_data h data c w =
     set_conn h (Child (c\<lparr>k_responseBody := k_responseBody c @ data\<rparr>)) w"

definition header_line :: "string \<times> hval \<Rightarrow> string" where
  "header_line kv =
     (case snd kv of
        Str v \<Rightarrow> if v = [] then [] else fst kv @ '': '' @ v @ crlf
      | Arr vs \<Rightarrow> fst kv @ '': '' @ join_str '', '' vs @ crlf)"

definition serialize :: "IncomingMessage option \<Rightarrow> string \<Rightarrow> string" where
  "serialize res text =
     ''HTTP/1.1 '' @
     template (case res of None \<Rightarrow> None | Some r \<Rightarrow> map_option show_int (in_statusCode r)) @
     '' '' @ template (case res of None \<Rightarrow> None | Some r \<Rightarrow> in_statusMessage r) @ crlf @
     concat (map header_line (case res of None \<Rightarrow> [] | Some r \<Rightarrow> in_headers r)) @
     crlf @ text"

definition tls_write :: "nat \<Rightarrow> string \<Rightarrow> world \<Rightarrow> world" where
  "tls_write h text w =
     (case conn_at w h of
        Some (Tunnel c) \<Rightarrow>
          set_conn h (Tunnel (c\<lparr>clientSocket := clientSocket c @ [Encrypted text]\<rparr>)) w
      | _ \<Rightarrow> w)"

definition child_end :: "nat \<Rightarrow> int \<Rightarrow> child_conn \<Rightarrow> world \<Rightarrow> world" where
  "child_end h now c w =
     (let request' =
            (k_request c)\<lparr>response :=
              Some (capture (k_proxyRes c) (k_responseBody c) (now - k_startTime c))\<rparr>
      in tls_write (k_parent c) (serialize (k_proxyRes c) (k_responseBody c))
           (set_conn h (Child (c\<lparr>k_request := request', k_stage := Completed\<rparr>))
              (emit (ResponseEv request') w)))"

definition child_error :: "nat \<Rightarrow> string \<Rightarrow> child_conn \<Rightarrow> world \<Rightarrow> world" where
  "child_error h msg c w =
     set_conn h (Child (c\<lparr>k_stage := Failed\<rparr>)) (emit (ErrorEv (id' (k_request c)) msg) w)"

subsection \<open>The event loop\<close>

text \<open>
  One step delivers one event. An event on an object reaches a handler only while that
  handler is registered and the object can still emit it: a request body is read until its
  \<open>end\<close>; an upstream response is awaited, then streamed, and a request emits \<open>error\<close> at
  most once, before its response has ended; a socket connects at most once and fails at
  most once; a pipe relays while its source has not failed and its target has not been
  ended. Anything else is not delivered. After an exception nobody caught, the process is
  gone (the command-line program's \<open>uncaughtException\<close> handler cleans up and exits).
\<close>

definition deliver :: "platform \<Rightarrow> action \<Rightarrow> world \<Rightarrow> world" where
  "deliver P a w =
     (case a of
        Incoming m u hs now \<Rightarrow> handleRequest m u hs now w
      | Connect u hs hd_bytes now now2 \<Rightarrow> handleConnect P u hs hd_bytes now now2 w
      | ReqData h data \<Rightarrow>
          (case conn_at w h of
             Some (Plain c) \<Rightarrow> if h_stage c = Reading then clientReq_data h data c w else w
           | _ \<Rightarrow> w)
      | ReqEnd h \<Rightarrow>
          (case conn_at w h of
             Some (Plain c) \<Rightarrow> if h_stage c = Reading then clientReq_end P h c w else w
           | _ \<Rightarrow> w)
      | ProxyRes h sc sm hs \<Rightarrow>
          (let res = \<lparr>in_statusCode = sc, in_statusMessage = sm, in_headers = hs\<rparr>
           in case conn_at w h of
                Some (Plain c) \<Rightarrow> if h_stage c = Forwarding then proxyReq_response h res c w else w
              | Some (Child c) \<Rightarrow> if k_stage c = Forwarding then child_response h res c w else w
              | _ \<Rightarrow> w)
      | ProxyResData h data \<Rightarrow>
          (case conn_at w h of
             Some (Plain c) \<Rightarrow> if h_stage c = Streaming then proxyRes_data h data c w else w
           | Some (Child c) \<Rightarrow> if k_stage c = Streaming then child_data h data c w else w
           | _ \<Rightarrow> w)
      | ProxyResEnd h now \<Rightarrow>
          (case conn_at w h of
             Some (Plain c) \<Rightarrow> if h_stage c = Streaming then proxyRes_end h now c w else w
           | Some (Child c) \<Rightarrow> if k_stage c = Streaming then child_end h now c w else w
           | _ \<Rightarrow> w)
      | ProxyReqError h msg \<Rightarrow>
          (case conn_at w h of
             Some (Plain c) \<Rightarrow>
               if h_stage c = Forwarding \<or> h_stage c = Streaming then proxyReq_error h msg c w
               else w
           | Some (Child c) \<Rightarrow>
               if k_stage c = Forwarding \<or> k_stage c = Streaming then child_error h msg c w
               else w
           | _ \<Rightarrow> w)
      | ServerConnect h now \<Rightarrow>
          (case conn_at w h of
             Some (Tunnel c) \<Rightarrow>
               if dial c \<noteq> None \<and> \<not> connected c \<and> \<not> serverFailed c
               then server_connect h now c w else w
           | _ \<Rightarrow> w)
      | ServerError h msg \<Rightarrow>
          (case conn_at w h of
             Some (Tunnel c) \<Rightarrow>
               if dial c \<noteq> None \<and> \<not> serverFailed c then server_error h msg c w else w
           | _ \<Rightarrow> w)
      | ClientError h \<Rightarrow>
          (case conn_at w h of
             Some (Tunnel c) \<Rightarrow>
               if dial c \<noteq> None \<and> \<not> clientFailed c then client_error h c w else w
           | _ \<Rightarrow> w)
      | ClientData h data \<Rightarrow>
          (case conn_at w h of
             Some (Tunnel c) \<Rightarrow>
               if connected c \<and> \<not> clientFailed c \<and> \<not> serverEnded c \<and> \<not> serverFailed c
               then client_data h data c w else w
           | _ \<Rightarrow> w)
      | ServerData h data \<Rightarrow>
          (case conn_at w h of
             Some (Tunnel c) \<Rightarrow>
               if connected c \<and> \<not> serverFailed c \<and> \<not> clientEnded c \<and> \<not> clientFailed c
               then server_data h data c w else w
           | _ \<Rightarrow> w)
      | TlsData h data now \<Rightarrow>
          (case conn_at w h of
             Some (Tunnel c) \<Rightarrow>
               if tls c \<noteq> None \<and> \<not> tlsFailed c
               then handleHttpsRequest P (c_hostname c) (c_targetPort c) data h now w else w
           | _ \<Rightarrow> w)
      | TlsError h \<Rightarrow>
          (case conn_at w h of
             Some (Tunnel c) \<Rightarrow> if tls c \<noteq> None \<and> \<not> tlsFailed c then tls_error h c w else w
           | _ \<Rightarrow> w))"

definition step :: "platform \<Rightarrow> world \<Rightarrow> action \<Rightarrow> world" where
  "step P w a = (if uncaught w \<noteq> None then w else deliver P a w)"

definition run :: "platform \<Rightarrow> world \<Rightarrow> action list \<Rightarrow> world" where
  "run P w acts = foldl (step P) w acts"

text \<open>The process after \<open>new ProxyServer()\<close>, with MITM set as given, before any connection.\<close>

definition boot :: "(string \<times> string) option \<Rightarrow> disk \<Rightarrow> world" where
  "boot ca d =
     \<lparr>proxy = new_ProxyServer\<lparr>caCert := ca\<rparr>, conns = [], events = [], fs = d, uncaught = None\<rparr>"

text \<open>The process after \<open>startProxy\<close>.\<close>

definition started :: "int \<Rightarrow> disk \<Rightarrow> world" where
  "started p d =
     \<lparr>proxy = start p new_ProxyServer, conns = [], events = [], fs = d, uncaught = None\<rparr>"

text \<open>The ids in the order of their assignment, and the number an id carries.\<close>

definition conn_id :: "conn \<Rightarrow> string" where
  "conn_id c =
     (case c of Plain x \<Rightarrow> h_id x | Tunnel x \<Rightarrow> id' (c_request x) | Child x \<Rightarrow> id' (k_request x))"

definition ids :: "world \<Rightarrow> string list" where
  "ids w = map conn_id (conns w)"

definition id_number :: "string \<Rightarrow> number" where
  "id_number s = parseInt (Some (drop 4 s))"

section \<open>Reference definitions and sample inputs\<close>

text \<open>
  The words of the specification for the CONNECT target: the host is the text before the
  first colon, and the port text is what stands between the first colon and the next one
  (or the end); a target without a colon has no port text.
\<close>

definition host_text :: "string \<Rightarrow> string" where
  "host_text s = takeWhile (\<lambda>c. c \<noteq> CHR '':'') s"

definition port_text :: "string \<Rightarrow> string option" where
  "port_text s =
     (case dropWhile (\<lambda>c. c \<noteq> CHR '':'') s of
        [] \<Rightarrow> None
      | _ # r \<Rightarrow> Some (takeWhile (\<lambda>c. c \<noteq> CHR '':'') r))"

text \<open>
  A shell in which \<open>openssl\<close> works for one home directory and one host: each of the five
  commands the module builds writes its output file; any other command fails.
\<close>

definition sample_shell :: "string \<Rightarrow> string \<Rightarrow> shell" where
  "sample_shell home host cmd files =
     (let hostKey = path_join [CERT_DIR home, host @ ''.key''];
          hostCert = path_join [CERT_DIR home, host @ ''.crt''];
          csrPath = path_join [CERT_DIR home, host @ ''.csr''];
          extPath = path_join [CERT_DIR home, host @ ''.ext'']
      in if cmd = genrsa_cmd (CA_KEY home) then (files(CA_KEY home \<mapsto> File ''root key''), None)
         else if cmd = ca_req_cmd home then (files(CA_CERT home \<mapsto> File ''root certificate''), None)
         else if cmd = genrsa_cmd hostKey then (files(hostKey \<mapsto> File ''leaf key''), None)
         else if cmd = csr_cmd hostKey csrPath host then (files(csrPath \<mapsto> File ''request''), None)
         else if cmd = sign_cmd home csrPath hostCert extPath
         then (files(hostCert \<mapsto> File ''leaf certificate''), None)
         else (files, Some ''command not found''))"

text \<open>A shell without \<open>openssl\<close>: every command fails and changes nothing.\<close>

definition broken_shell :: shell where
  "broken_shell cmd files = (files, Some ''openssl: not found'')"

definition empty_disk :: disk where
  "empty_disk = \<lparr>entries = Map.empty, commands = []\<rparr>"

text \<open>The disk after the root and one leaf have been issued on an empty disk.\<close>

definition disk_after_issuance :: disk where
  "disk_after_issuance =
     snd (generateHostCert (sample_shell ''/home/dev'' ''example.com'') ''/home/dev'' ''example.com''
       (snd (generateCACert (sample_shell ''/home/dev'' ''example.com'') ''/home/dev'' empty_disk)))"

section \<open>Invariants of the event loop\<close>

text \<open>
  The id the next exchange will be given.
\<close>

definition fresh :: "world \<Rightarrow> string" where
  "fresh w = ''req_'' @ show_nat (js_incr (requestId (proxy w)))"

text \<open>
  A string of decimal digits.
\<close>

definition decimal :: "string \<Rightarrow> bool" where
  "decimal s = (\<forall>c \<in> set s. \<exists>d < 10. c = digit_char d)"

text \<open>
  The invariant of the id counter: it counts the connections created, up to the limit of
  exact counting, and the connection created as number \<open>i + 1\<close> carries \<open>req_\<close> followed by
  that number.
\<close>

definition id_inv :: "world \<Rightarrow> bool" where
  "id_inv w = (requestId (proxy w) = min (length (conns w)) (2 ^ 53) \<and>
     (\<forall>i < length (conns w). i < 2 ^ 53 \<longrightarrow> ids w ! i = ''req_'' @ show_nat (Suc i)))"

text \<open>
  A platform for the sample runs: \<open>openssl\<close> is missing, \<open>new URL\<close> accepts the strings
  that start with \<open>http://\<close>, every key and certificate is accepted, and no request throws.
\<close>

definition sample_URL :: "string \<Rightarrow> URL option" where
  "sample_URL s =
     (if take 7 s = ''http://''
      then Some \<lparr>url_hostname = takeWhile (\<lambda>c. c \<noteq> CHR ''/'') (drop 7 s), url_port = [],
                 pathname = dropWhile (\<lambda>c. c \<noteq> CHR ''/'') (drop 7 s), search = []\<rparr>
      else None)"

definition sample_platform :: platform where
  "sample_platform =
     \<lparr>homedir = ''/home/dev'', shell_of = broken_shell, new_URL = sample_URL,
      tls_accepts = (\<lambda>k c. True), request_throws = (\<lambda>opts. None)\<rparr>"

text \<open>
  Sample runs: ten plain requests; two plain requests around a CONNECT.
\<close>

definition ten_requests :: "action list" where
  "ten_requests = replicate 10 (Incoming (Some ''GET'') (Some ''http://example.com/'') [] 0)"

definition three_exchanges :: "action list" where
  "three_exchanges =
     [Incoming (Some ''GET'') (Some ''http://example.com/a'') [] 1000,
      Connect (Some ''example.com:443'') [] [] 1001 1001,
      ReqEnd 0,
      Incoming (Some ''POST'') (Some ''http://example.com/b'') [] 1002]"

text \<open>
  The id a \<open>response\<close> or \<open>error\<close> event bears, the ids for which a \<open>request\<close> event is among
  some events, and the order the specification asks for: every event that bears an id as a
  response or an error comes after a \<open>request\<close> event of that id.
\<close>

fun reply_id :: "event \<Rightarrow> string option" where
  "reply_id (RequestEv r) = None"
| "reply_id (ResponseEv r) = Some (id' r)"
| "reply_id (ErrorEv i m) = Some i"

definition requested :: "event list \<Rightarrow> string set" where
  "requested evs = {id' r | r. RequestEv r \<in> set evs}"

definition ordered :: "event list \<Rightarrow> bool" where
  "ordered evs =
     (\<forall>i < length evs. \<forall>x. reply_id (evs ! i) = Some x \<longrightarrow> x \<in> requested (take i evs))"

text \<open>
  The ids for which a connection can still emit \<open>response\<close> or \<open>error\<close>, and the invariant
  that all of them have had their \<open>request\<close> event.
\<close>

definition pending :: "conn \<Rightarrow> string set" where
  "pending c =
     (case c of
        Plain x \<Rightarrow>
          (if h_stage x = Forwarding \<or> h_stage x = Streaming
           then insert (h_id x) (case h_request x of None \<Rightarrow> {} | Some r \<Rightarrow> {id' r})
           else {})
      | Tunnel x \<Rightarrow> {id' (c_request x)}
      | Child x \<Rightarrow> {id' (k_request x)})"

definition ord_inv :: "world \<Rightarrow> bool" where
  "ord_inv w = (ordered (events w) \<and> (\<forall>c \<in> set (conns w). pending c \<subseteq> requested (events w)))"

text \<open>
  The clock readings an event's handlers take, in the order they take them (the second
  reading of a CONNECT is the one \<open>handleHttpsWithMitm\<close> takes when it sets the response),
  the readings of a whole run, and the events one step emits.
\<close>

fun readings :: "action \<Rightarrow> int list" where
  "readings (Incoming m u hs now) = [now]"
| "readings (Connect u hs hb now now2) = [now, now2]"
| "readings (ProxyResEnd h now) = [now]"
| "readings (ServerConnect h now) = [now]"
| "readings (TlsData h x now) = [now]"
| "readings _ = []"

definition clock :: "action list \<Rightarrow> int list" where
  "clock acts = concat (map readings acts)"

definition emitted :: "platform \<Rightarrow> world \<Rightarrow> action \<Rightarrow> event list" where
  "emitted P w a = drop (length (events w)) (events (step P w a))"

text \<open>
  The events that complete an exchange: the end of an upstream response that is being
  streamed, for a plain request and for a request read from a TLS session, and the success
  of the dial of a tunnel.
\<close>

definition completes :: "world \<Rightarrow> action \<Rightarrow> bool" where
  "completes w a =
     (case a of
        ProxyResEnd h now \<Rightarrow>
          (case conn_at w h of
             Some (Plain c) \<Rightarrow> h_stage c = Streaming
           | Some (Child c) \<Rightarrow> k_stage c = Streaming
           | _ \<Rightarrow> False)
      | ServerConnect h now \<Rightarrow>
          (case conn_at w h of
             Some (Tunnel c) \<Rightarrow> dial c \<noteq> None \<and> \<not> connected c \<and> \<not> serverFailed c
           | _ \<Rightarrow> False)
      | _ \<Rightarrow> False)"

text \<open>
  The invariant of the start times: the start time of every connection is a reading taken
  so far, the \<open>timestamp\<close> of its exchange is that start time, and a plain request that has
  been read has its exchange. \<open>resp_ok\<close> says of a \<open>response\<close> event emitted in a step that
  its duration is the difference of two readings.
\<close>

definition start_ok :: "int set \<Rightarrow> conn \<Rightarrow> bool" where
  "start_ok T c =
     (case c of
        Plain x \<Rightarrow>
          h_startTime x \<in> T \<and> (h_stage x = Reading \<or> h_request x \<noteq> None) \<and>
          (\<forall>r. h_request x = Some r \<longrightarrow> timestamp r = h_startTime x)
      | Tunnel x \<Rightarrow> timestamp (c_request x) \<in> T
      | Child x \<Rightarrow> k_startTime x \<in> T \<and> timestamp (k_request x) = k_startTime x)"

definition time_inv :: "int set \<Rightarrow> world \<Rightarrow> bool" where
  "time_inv T w = (\<forall>c \<in> set (conns w). start_ok T c)"

definition resp_ok :: "int set \<Rightarrow> int list \<Rightarrow> event \<Rightarrow> bool" where
  "resp_ok T rs e =
     (case e of
        ResponseEv r \<Rightarrow>
          (\<exists>res. response r = Some res \<and> rs \<noteq> [] \<and> duration res = last rs - timestamp r \<and>
                 timestamp r \<in> T \<union> set rs)
      | _ \<Rightarrow> True)"

definition good :: "int set \<Rightarrow> int list \<Rightarrow> world \<Rightarrow> world \<Rightarrow> bool" where
  "good T rs w w' =
     (time_inv (T \<union> set rs) w' \<and>
      (\<exists>es. events w' = events w @ es \<and> (\<forall>e \<in> set es. resp_ok T rs e)))"

text \<open>
  A property of every connection of the process.
\<close>

definition all_conns :: "(conn \<Rightarrow> bool) \<Rightarrow> world \<Rightarrow> bool" where
  "all_conns Q w = (\<forall>c \<in> set (conns w). Q c)"

text \<open>
  Before the upstream's response head arrives nothing has been sent to the client: while a
  plain request is being read there is no exchange and no upstream request, and while it is
  being forwarded the exchange has no response.
\<close>

definition unread :: "conn \<Rightarrow> bool" where
  "unread c =
     (case c of
        Plain x \<Rightarrow>
          (h_stage x = Reading \<longrightarrow>
             clientRes x = new_ServerResponse \<and> proxyReq x = None \<and> h_request x = None) \<and>
          (h_stage x = Forwarding \<longrightarrow>
             clientRes x = new_ServerResponse \<and>
             (\<exists>r. h_request x = Some r \<and> response r = None \<and> id' r = h_id x))
      | _ \<Rightarrow> True)"

text \<open>
  Tunnel mode: what the two sockets of a CONNECT connection have been given. A connection
  that is not connected has been given nothing; a connected one has been given the reply
  first, then relayed chunks only, and the upstream the head first, then relayed chunks
  only. No TLS session is terminated and no request is read from one.
\<close>

fun is_piped :: "chunk \<Rightarrow> bool" where
  "is_piped (Piped s) = True"
| "is_piped _ = False"

definition tunnel_ok :: "conn \<Rightarrow> bool" where
  "tunnel_ok c =
     (case c of
        Plain x \<Rightarrow> True
      | Child x \<Rightarrow> False
      | Tunnel x \<Rightarrow>
          tls x = None \<and>
          (if connected x
           then (\<exists>xs ys. clientSocket x = Wrote reply200 # xs \<and> list_all is_piped xs \<and>
                         serverSocket x = Wrote (c_head x) # ys \<and> list_all is_piped ys)
           else clientSocket x = [] \<and> serverSocket x = []))"

definition tunnel_inv :: "world \<Rightarrow> bool" where
  "tunnel_inv w = (caCert (proxy w) = None \<and> all_conns tunnel_ok w)"

text \<open>
  A CONNECT connection that has been answered: the client was sent the reply first and
  relayed bytes after it, and the upstream was sent the head \<open>hb\<close> first and relayed bytes
  after it. A silent one: neither socket was sent anything.
\<close>

definition answered :: "string \<Rightarrow> connect_conn \<Rightarrow> bool" where
  "answered hb c =
     ((case clientSocket c of [] \<Rightarrow> False | x # xs \<Rightarrow> x = Wrote reply200 \<and> list_all is_piped xs) \<and>
      (case serverSocket c of [] \<Rightarrow> False | y # ys \<Rightarrow> y = Wrote hb \<and> list_all is_piped ys))"

definition silent :: "connect_conn \<Rightarrow> bool" where
  "silent c = (clientSocket c = [] \<and> serverSocket c = [])"

text \<open>
  What a CONNECT connection keeps: the id and the start time of its exchange, the head that
  came with the CONNECT, and the target of its dial; and, when \<open>r\<close> is set, that the dial
  has failed before it succeeded.
\<close>

definition tunnel_of :: "string \<Rightarrow> int \<Rightarrow> string \<Rightarrow> number \<times> string \<Rightarrow> bool \<Rightarrow> conn \<Rightarrow> bool" where
  "tunnel_of i t0 hb t r c =
     (case c of
        Tunnel x \<Rightarrow>
          id' (c_request x) = i \<and> timestamp (c_request x) = t0 \<and> c_head x = hb \<and>
          dial x = Some t \<and> (r \<longrightarrow> serverFailed x \<and> \<not> connected x)
      | _ \<Rightarrow> False)"

text \<open>
  The words of the specification for the port of the CONNECT target: 443 when there is no
  port text or it does not parse to a number other than zero, the parsed number otherwise.
\<close>

definition target_port :: "string \<Rightarrow> number" where
  "target_port s =
     (case parseInt (port_text s) of
        NaN \<Rightarrow> Num 443
      | Num k \<Rightarrow> if k = 0 then Num 443 else Num k
      | Inexact \<Rightarrow> Inexact)"

text \<open>
  Sample runs. A CONNECT whose dial succeeds, with bytes in both directions; a CONNECT
  whose dial is refused; a plain request with a URL that \<open>new URL\<close> rejects, before its
  end; a plain request that has been forwarded; a plain request whose upstream has sent
  the head and a body; a platform on which \<open>openssl\<close> works, and a request read from a TLS
  session that the proxy terminates there, whose upstream has sent the head and a body; and
  a plain request whose upstream sends the head and a part of the body and then resets the
  connection.
\<close>

definition tunnel_session :: "action list" where
  "tunnel_session =
     [Connect (Some ''example.com:443'') [] ''hello'' 1000 1000,
      ServerConnect 0 1040,
      ClientData 0 ''ping'',
      ServerData 0 ''pong'']"

definition refused_session :: "action list" where
  "refused_session =
     [Connect (Some ''example.com:443'') [] ''hello'' 1000 1000,
      ServerError 0 ''connect ECONNREFUSED'']"

definition bad_url_session :: "action list" where
  "bad_url_session = [Incoming (Some ''GET'') (Some ''/relative'') [] 1000, ReqData 0 ''x'']"

definition forwarding_session :: "action list" where
  "forwarding_session =
     [Incoming (Some ''GET'') (Some ''http://example.com/a'') [] 1000, ReqEnd 0]"

definition plain_session :: "action list" where
  "plain_session =
     [Incoming (Some ''GET'') (Some ''http://example.com/a'') [] 1000,
      ReqEnd 0,
      ProxyRes 0 (Some 200) (Some ''OK'') [],
      ProxyResData 0 ''body'']"

definition mitm_platform :: platform where
  "mitm_platform =
     \<lparr>homedir = ''/home/dev'', shell_of = sample_shell ''/home/dev'' ''example.com'',
      new_URL = sample_URL, tls_accepts = (\<lambda>k c. True), request_throws = (\<lambda>opts. None)\<rparr>"

definition mitm_session :: "action list" where
  "mitm_session =
     [Connect (Some ''example.com:443'') [] [] 1000 1005,
      TlsData 0 (''GET /a HTTP/1.1'' @ crlf @ ''host: example.com'' @ crlf @ crlf) 1010,
      ProxyRes 1 (Some 200) (Some ''OK'') [],
      ProxyResData 1 ''hi'']"

definition reset_session :: "action list" where
  "reset_session =
     [Incoming (Some ''GET'') (Some ''http://example.com/a'') [] 1000,
      ReqEnd 0,
      ProxyRes 0 (Some 200) (Some ''OK'') [],
      ProxyResData 0 ''partial'',
      ProxyReqError 0 ''read ECONNRESET'']"

section \<open>Properties of the certificate module\<close>

lemma generateCACert_paths:
  assumes "fst (generateCACert sh home d0) = Inr p"
  shows "p = \<lparr>key = CA_KEY home, cert = CA_CERT home, dir = CERT_DIR home\<rparr>"
  using assms
  by (auto simp: generateCACert_def bind_io_def ensureCertDir_def mkdirSync_def execSync_def
           split: prod.splits sum.splits if_splits option.splits)

lemma generateHostCert_paths:
  assumes "fst (generateHostCert sh home host d0) = Inr p"
  shows "p = \<lparr>hkey = path_join [CERT_DIR home, host @ ''.key''],
              hcert = path_join [CERT_DIR home, host @ ''.crt'']\<rparr>"
  using assms
  by (auto simp: generateHostCert_def bind_io_def ensureCertDir_def mkdirSync_def Let_def
           split: prod.splits sum.splits if_splits option.splits)

lemma generateCACert_cached:
  assumes "existsSync (CERT_DIR home) d" "existsSync (CA_KEY home) d" "existsSync (CA_CERT home) d"
  shows "generateCACert sh home d =
           (Inr \<lparr>key = CA_KEY home, cert = CA_CERT home, dir = CERT_DIR home\<rparr>, d)"
  using assms by (simp add: generateCACert_def bind_io_def ensureCertDir_def)

lemma generateHostCert_cached:
  assumes "existsSync (CERT_DIR home) d"
    "existsSync (path_join [CERT_DIR home, host @ ''.key'']) d"
    "existsSync (path_join [CERT_DIR home, host @ ''.crt'']) d"
  shows "generateHostCert sh home host d =
     (Inr \<lparr>hkey = path_join [CERT_DIR home, host @ ''.key''],
           hcert = path_join [CERT_DIR home, host @ ''.crt'']\<rparr>, d)"
  using assms by (simp add: generateHostCert_def bind_io_def ensureCertDir_def Let_def)

text \<open>
  C6. Issuance is idempotent. Let \<open>p\<close> be the paths a call of \<open>generateCACert\<close> returned, and
  let the certificate directory, the root key and the root certificate exist on the disk
  \<open>d\<close>. Then a call on \<open>d\<close> returns the same paths \<open>p\<close> and leaves \<open>d\<close> as it is: no file
  changes and no command is run (the list of commands is part of \<open>d\<close>). The same holds for
  \<open>generateHostCert\<close> of a host with the leaf key and the leaf certificate of that host.
\<close>

theorem issuance_idempotent:
  assumes "existsSync (CERT_DIR home) d"
  shows "(fst (generateCACert sh home d0) = Inr p \<and>
          existsSync (key p) d \<and> existsSync (cert p) d
            \<longrightarrow> generateCACert sh home d = (Inr p, d)) \<and>
         (fst (generateHostCert sh home host d1) = Inr q \<and>
          existsSync (hkey q) d \<and> existsSync (hcert q) d
            \<longrightarrow> generateHostCert sh home host d = (Inr q, d))"
proof (intro conjI impI)
  assume a: "fst (generateCACert sh home d0) = Inr p \<and>
          existsSync (key p) d \<and> existsSync (cert p) d"
  then have "p = \<lparr>key = CA_KEY home, cert = CA_CERT home, dir = CERT_DIR home\<rparr>"
    using generateCACert_paths by blast
  with a assms show "generateCACert sh home d = (Inr p, d)"
    by (simp add: generateCACert_cached)
next
  assume a: "fst (generateHostCert sh home host d1) = Inr q \<and>
          existsSync (hkey q) d \<and> existsSync (hcert q) d"
  then have "q = \<lparr>hkey = path_join [CERT_DIR home, host @ ''.key''],
              hcert = path_join [CERT_DIR home, host @ ''.crt'']\<rparr>"
    using generateHostCert_paths by blast
  with a assms show "generateHostCert sh home host d = (Inr q, d)"
    by (simp add: generateHostCert_cached)
qed

text \<open>
  On an empty disk with a working \<open>openssl\<close>, the root and the leaf for \<open>example.com\<close> are
  issued with five commands; the calls after that return the same paths and leave the disk,
  and so the five commands, as they are.
\<close>

theorem issuance_idempotent_witness:
  "generateCACert (sample_shell ''/home/dev'' ''example.com'') ''/home/dev'' disk_after_issuance =
     (fst (generateCACert (sample_shell ''/home/dev'' ''example.com'') ''/home/dev'' empty_disk),
      disk_after_issuance) \<and>
   generateHostCert (sample_shell ''/home/dev'' ''example.com'') ''/home/dev'' ''example.com''
       disk_after_issuance =
     (Inr \<lparr>hkey = ''/home/dev/.devlens/certs/example.com.key'',
           hcert = ''/home/dev/.devlens/certs/example.com.crt''\<rparr>, disk_after_issuance) \<and>
   length (commands disk_after_issuance) = 5"
proof -
  let ?sh = "sample_shell ''/home/dev'' ''example.com''"
  let ?d1 = "snd (generateCACert ?sh ''/home/dev'' empty_disk)"
  let ?p = "\<lparr>key = ''/home/dev/.devlens/certs/ca.key'', cert = ''/home/dev/.devlens/certs/ca.crt'',
           dir = ''/home/dev/.devlens/certs''\<rparr>"
  let ?q = "\<lparr>hkey = ''/home/dev/.devlens/certs/example.com.key'',
           hcert = ''/home/dev/.devlens/certs/example.com.crt''\<rparr>"
  have p: "fst (generateCACert ?sh ''/home/dev'' empty_disk) = Inr ?p"
    by code_simp
  have q: "fst (generateHostCert ?sh ''/home/dev'' ''example.com'' ?d1) = Inr ?q"
    by code_simp
  have e: "existsSync (CERT_DIR ''/home/dev'') disk_after_issuance"
    by code_simp
  have f: "existsSync ''/home/dev/.devlens/certs/ca.key'' disk_after_issuance
      \<and> existsSync ''/home/dev/.devlens/certs/ca.crt'' disk_after_issuance
      \<and> existsSync ''/home/dev/.devlens/certs/example.com.key'' disk_after_issuance
      \<and> existsSync ''/home/dev/.devlens/certs/example.com.crt'' disk_after_issuance
      \<and> length (commands disk_after_issuance) = 5"
    by code_simp
  show ?thesis
    using issuance_idempotent [OF e, of ?sh empty_disk ?p "''example.com''" ?d1 ?q] p q f
    by simp
qed

section \<open>Properties of the CONNECT target and of the root certificate path\<close>

lemma split_acc_nonempty: "split_acc sep acc s \<noteq> []"
  by (induction sep acc s rule: split_acc.induct) auto

lemma split_acc_char:
  "split_acc [c] acc s =
     (rev acc @ takeWhile (\<lambda>x. x \<noteq> c) s) #
     (case dropWhile (\<lambda>x. x \<noteq> c) s of [] \<Rightarrow> [] | _ # r \<Rightarrow> split_acc [c] [] r)"
  by (induction s arbitrary: acc) auto

lemma split_str_char:
  "split_str [c] s =
     takeWhile (\<lambda>x. x \<noteq> c) s #
     (case dropWhile (\<lambda>x. x \<noteq> c) s of [] \<Rightarrow> [] | _ # r \<Rightarrow> split_acc [c] [] r)"
  unfolding split_str_def by (subst split_acc_char) simp

lemma split_str_hd: "hd (split_str [c] s) = takeWhile (\<lambda>x. x \<noteq> c) s"
  by (simp only: split_str_char list.sel)

lemma split_str_second:
  "(if 1 < length (split_str [c] s) then Some (split_str [c] s ! 1) else None) =
     (case dropWhile (\<lambda>x. x \<noteq> c) s of
        [] \<Rightarrow> None
      | _ # r \<Rightarrow> Some (takeWhile (\<lambda>x. x \<noteq> c) r))"
proof (cases "dropWhile (\<lambda>x. x \<noteq> c) s")
  case Nil
  then have "split_str [c] s = [takeWhile (\<lambda>x. x \<noteq> c) s]"
    by (simp only: split_str_char list.case)
  with Nil show ?thesis by (simp only: list.case) simp
next
  case (Cons a r)
  have ne: "split_acc [c] [] r \<noteq> []" by (rule split_acc_nonempty)
  have hd: "hd (split_acc [c] [] r) = takeWhile (\<lambda>x. x \<noteq> c) r"
    by (subst split_acc_char) simp
  from ne obtain y ys where y: "split_acc [c] [] r = y # ys"
    by (cases "split_acc [c] [] r") auto
  with hd have y': "y = takeWhile (\<lambda>x. x \<noteq> c) r" by simp
  from Cons y have "split_str [c] s = takeWhile (\<lambda>x. x \<noteq> c) s # y # ys"
    by (simp only: split_str_char list.case)
  with Cons y' show ?thesis by (simp only: list.case) simp
qed

text \<open>
  The host and the port that lines 143 and 144 compute: the host is the target's text
  before the first colon; the port is 443 when the target has no port text, when \<open>parseInt\<close>
  of the port text is NaN, and when it is zero; otherwise it is the number \<open>parseInt\<close> reads.
\<close>

lemma connect_target_rule:
  "connect_target u = (host_text (or_else u []), target_port (or_else u []))"
  unfolding connect_target_def Let_def host_text_def port_text_def target_port_def
  by (simp only: split_str_hd split_str_second)

text \<open>
  C8, as the code has it. \<open>start\<close> sets \<open>caCert\<close> to null, so on a started proxy
  \<open>getCACertPath\<close> returns null, and so does \<open>getProxyCACertPath\<close> after \<open>startProxy\<close>.
\<close>

theorem started_proxy_has_no_ca_path:
  "caCert (start p s) = None \<and> ProxyServer_getCACertPath home (start p s) = None \<and>
   getProxyCACertPath home (startProxy p inst) = None"
  by (simp add: start_def ProxyServer_getCACertPath_def getProxyCACertPath_def startProxy_def)

text \<open>The claim as stated fails: after \<open>startProxy(8080)\<close> the export returns null.\<close>

theorem ca_path_after_start_is_null:
  "getProxyCACertPath ''/home/dev'' (startProxy 8080 None) = None"
  by (simp add: start_def ProxyServer_getCACertPath_def getProxyCACertPath_def startProxy_def)

section \<open>Effects of the handlers on the state\<close>

lemmas handler_defs [no_atp] =
  handleRequest_def clientReq_data_def clientReq_end_def proxyReq_response_def proxyRes_data_def
  proxyRes_end_def proxyReq_error_def handleHttpsTunnel_def handleHttpsWithMitm_def
  handleConnect_def server_connect_def server_error_def client_error_def tls_error_def
  client_data_def server_data_def handleHttpsRequest_def child_response_def child_data_def
  child_end_def child_error_def tls_write_def next_id_def

lemma conns_emit [simp]: "conns (emit e w) = conns w"
  and proxy_emit [simp]: "proxy (emit e w) = proxy w"
  and events_emit [simp]: "events (emit e w) = events w @ [e]"
  and fs_emit [simp]: "fs (emit e w) = fs w"
  and uncaught_emit [simp]: "uncaught (emit e w) = uncaught w"
  by (simp_all add: emit_def)

lemma conns_set_conn [simp]: "conns (set_conn h c w) = (conns w)[h := c]"
  and proxy_set_conn [simp]: "proxy (set_conn h c w) = proxy w"
  and events_set_conn [simp]: "events (set_conn h c w) = events w"
  and fs_set_conn [simp]: "fs (set_conn h c w) = fs w"
  and uncaught_set_conn [simp]: "uncaught (set_conn h c w) = uncaught w"
  by (simp_all add: set_conn_def)

lemma conn_at_Some: "conn_at w h = Some c \<longleftrightarrow> h < length (conns w) \<and> conns w ! h = c"
  by (auto simp: conn_at_def)

lemma map_update_same: "h < length xs \<Longrightarrow> f c = f (xs ! h) \<Longrightarrow> map f (xs[h := c]) = map f xs"
  by (metis list_update_id map_update)

lemma all_update: "Q c \<Longrightarrow> \<forall>x \<in> set xs. Q x \<Longrightarrow> \<forall>x \<in> set (xs[h := c]). Q x"
  using set_update_subset_insert [of xs h c] by auto

lemma conn_at_emit [simp]: "conn_at (emit e w) h = conn_at w h"
  and conn_at_fs [simp]: "conn_at (w\<lparr>fs := d\<rparr>) h = conn_at w h"
  and conn_at_uncaught [simp]: "conn_at (w\<lparr>uncaught := u\<rparr>) h = conn_at w h"
  by (simp_all add: conn_at_def)

lemma conn_at_set_conn:
  "conn_at (set_conn h' c' w) h = (if h = h' \<and> h < length (conns w) then Some c' else conn_at w h)"
  by (simp add: conn_at_def)

lemma conn_at_append:
  "conn_at w h = Some c \<Longrightarrow> conn_at (w\<lparr>proxy := p, conns := conns w @ [c']\<rparr>) h = Some c"
  by (auto simp: conn_at_def nth_append split: if_splits)

lemma conn_at_tls_write:
  "conn_at w h = Some (Plain c) \<Longrightarrow> conn_at (tls_write h' x w) h = Some (Plain c)"
  by (auto simp: tls_write_def conn_at_set_conn split: option.splits conn.splits)

lemma run_snoc: "run P w (acts @ [a]) = step P (run P w acts) a"
  by (simp add: run_def)

section \<open>Unique ids\<close>

lemma deliver_ids:
  "(ids (deliver P a w) = ids w \<and> requestId (proxy (deliver P a w)) = requestId (proxy w)) \<or>
   (ids (deliver P a w) = ids w @ [fresh w] \<and>
    requestId (proxy (deliver P a w)) = js_incr (requestId (proxy w)))"
  unfolding deliver_def
  by (cases a)
     (auto simp: handler_defs ids_def fresh_def conn_at_Some conn_id_def Let_def map_update_same
           split: option.splits conn.splits sum.splits prod.splits if_splits)

lemma of_char_digit_char: "d < 10 \<Longrightarrow> of_char (digit_char d) = (48 + d :: nat)"
  by (simp add: digit_char_def)

lemma digit_of_digit_char: "d < 10 \<Longrightarrow> digit_of 10 (digit_char d) = Some d"
  by (simp add: digit_of_def of_char_digit_char Let_def)

lemma decimal_show_nat: "decimal (show_nat n)"
proof (induction n rule: show_nat.induct)
  case (1 n)
  show ?case
  proof (cases "n < 10")
    case True
    then show ?thesis by (subst show_nat.simps) (auto simp: decimal_def)
  next
    case False
    have "\<exists>d<10. digit_char (n mod 10) = digit_char d"
      by (rule exI [of _ "n mod 10"]) simp
    with False 1 show ?thesis
      by (subst show_nat.simps) (auto simp: decimal_def)
  qed
qed

lemma show_nat_nonempty: "show_nat n \<noteq> []"
  by (subst show_nat.simps) simp

lemma digits_prefix_decimal:
  "decimal s \<Longrightarrow> digits_prefix 10 (s @ t) = digits_prefix 10 s @ digits_prefix 10 t
     \<and> length (digits_prefix 10 s) = length s"
  by (induction s) (auto simp: decimal_def digit_of_digit_char)

lemma digits_value_snoc: "digits_value r (ds @ [d]) = digits_value r ds * r + d"
  by (simp add: digits_value_def)

lemma digits_show_nat: "digits_value 10 (digits_prefix 10 (show_nat n)) = n"
proof (induction n rule: show_nat.induct)
  case (1 n)
  show ?case
  proof (cases "n < 10")
    case True
    then show ?thesis
      by (subst show_nat.simps) (simp add: digit_of_digit_char digits_value_def)
  next
    case False
    have m: "n mod 10 < 10" by simp
    have "digits_prefix 10 (show_nat (n div 10) @ [digit_char (n mod 10)]) =
            digits_prefix 10 (show_nat (n div 10)) @ [n mod 10]"
      using digits_prefix_decimal [OF decimal_show_nat] m by (simp add: digit_of_digit_char)
    with False 1 show ?thesis
      by (subst show_nat.simps) (simp add: digits_value_snoc)
  qed
qed

lemma decimal_no_ws: "decimal s \<Longrightarrow> c \<in> set s \<Longrightarrow> \<not> is_ws c \<and> c \<noteq> CHR ''-'' \<and> c \<noteq> CHR ''+'' \<and> c \<noteq> CHR ''x'' \<and> c \<noteq> CHR ''X''"
  by (auto simp: decimal_def is_ws_def of_char_digit_char dest!: arg_cong [where f = "of_char :: char \<Rightarrow> nat"])

lemma parseInt_decimal:
  assumes "decimal s" "s \<noteq> []" "digits_value 10 (digits_prefix 10 s) \<le> 2 ^ 53"
  shows "parseInt (Some s) = Num (int (digits_value 10 (digits_prefix 10 s)))"
proof -
  from assms obtain c cs where s: "s = c # cs" by (cases s) auto
  with assms have c: "\<not> is_ws c" "c \<noteq> CHR ''-''" "c \<noteq> CHR ''+''"
    using decimal_no_ws [of s c] by auto
  have hex: "(take 2 s = ''0x'' \<or> take 2 s = ''0X'') = False"
  proof (cases cs)
    case Nil
    with s show ?thesis by simp
  next
    case (Cons b bs)
    with s assms have "b \<noteq> CHR ''x'' \<and> b \<noteq> CHR ''X''"
      using decimal_no_ws [of s b] by auto
    with s Cons show ?thesis by simp
  qed
  have ne: "(digits_prefix 10 s = []) = False"
    using digits_prefix_decimal [OF assms(1), of "[]"] assms(2) by auto
  from s c have d: "dropWhile is_ws s = s" by simp
  from s c have sgn: "(s \<noteq> [] \<and> hd s = CHR ''-'') = False"
    and pls: "(s \<noteq> [] \<and> (hd s = CHR ''+'' \<or> hd s = CHR ''-'')) = False"
    by simp_all
  have "int (digits_value 10 (digits_prefix 10 s)) \<le> int (2 ^ 53)"
    using assms(3) by (simp only: of_nat_le_iff)
  then have rng: "(- (2 ^ 53) \<le> 1 * int (digits_value 10 (digits_prefix 10 s)) \<and>
      1 * int (digits_value 10 (digits_prefix 10 s)) \<le> 2 ^ 53) = True"
    by simp
  show ?thesis
    by (simp only: parseInt_def Let_def option.case d sgn pls hex ne if_False rng if_True) simp
qed

lemma parseInt_show_nat: "n \<le> 2 ^ 53 \<Longrightarrow> parseInt (Some (show_nat n)) = Num (int n)"
  using parseInt_decimal [OF decimal_show_nat show_nat_nonempty, of n]
  by (simp add: digits_show_nat)

lemma id_number_fresh: "n \<le> 2 ^ 53 \<Longrightarrow> id_number (''req_'' @ show_nat n) = Num (int n)"
  by (simp add: id_number_def parseInt_show_nat)

lemma length_ids [simp]: "length (ids w) = length (conns w)"
  by (simp add: ids_def)

lemma id_inv_step: assumes "id_inv w" shows "id_inv (step P w a)"
proof (cases "uncaught w \<noteq> None")
  case True
  with assms show ?thesis by (simp add: step_def)
next
  case False
  let ?w = "deliver P a w"
  from deliver_ids [of P a w] consider
      (same) "ids ?w = ids w" "requestId (proxy ?w) = requestId (proxy w)"
    | (new) "ids ?w = ids w @ [fresh w]" "requestId (proxy ?w) = js_incr (requestId (proxy w))"
    by blast
  then have "id_inv ?w"
  proof cases
    case same
    from same(1) have "length (conns ?w) = length (conns w)"
      by (metis length_ids)
    with same assms show ?thesis by (simp add: id_inv_def)
  next
    case new
    from new(1) have len: "length (conns ?w) = Suc (length (conns w))"
      by (metis length_ids length_append_singleton)
    from assms have r: "requestId (proxy w) = min (length (conns w)) (2 ^ 53)"
      by (simp add: id_inv_def)
    show ?thesis
      unfolding id_inv_def
    proof (intro conjI allI impI)
      show "requestId (proxy ?w) = min (length (conns ?w)) (2 ^ 53)"
        using new(2) r len by (simp add: js_incr_def min_def)
    next
      fix i assume i: "i < length (conns ?w)" "i < (2::nat) ^ 53"
      show "ids ?w ! i = ''req_'' @ show_nat (Suc i)"
      proof (cases "i < length (conns w)")
        case True
        with assms i new(1) show ?thesis by (simp add: id_inv_def nth_append)
      next
        case False
        with i len have e: "i = length (conns w)" by simp
        with i r have "js_incr (requestId (proxy w)) = Suc i" by (simp add: js_incr_def)
        with e new(1) show ?thesis by (simp add: nth_append fresh_def)
      qed
    qed
  qed
  with False show ?thesis by (simp add: step_def)
qed

lemma id_inv_run: "id_inv w \<Longrightarrow> id_inv (run P w acts)"
  unfolding run_def
  by (induction acts arbitrary: w) (simp_all add: id_inv_step)

lemma id_inv_boot: "id_inv (boot ca d)"
  by (simp add: id_inv_def boot_def new_ProxyServer_def)

text \<open>
  C1. The ids of the exchanges of a \<open>ProxyServer\<close> (plain HTTP, CONNECT or read from a TLS
  session, in any interleaving with any other events), listed in the order of their
  assignment, are distinct, and of two ids the one assigned first carries the smaller
  number after \<open>req_\<close>. The counter is a JavaScript number, which counts exactly up to
  \<open>2^53\<close>: the statement is for up to \<open>2^53\<close> exchanges.
\<close>

theorem ids_unique_and_numbered:
  assumes "length (ids (run P (boot ca d) acts)) \<le> 2 ^ 53"
  shows "distinct (ids (run P (boot ca d) acts)) \<and>
         (\<forall>i j. i < j \<and> j < length (ids (run P (boot ca d) acts)) \<longrightarrow>
            (\<exists>m n. id_number (ids (run P (boot ca d) acts) ! i) = Num m \<and>
                   id_number (ids (run P (boot ca d) acts) ! j) = Num n \<and> m < n))"
proof -
  let ?w = "run P (boot ca d) acts"
  have inv: "id_inv ?w" by (simp add: id_inv_run id_inv_boot)
  have nth: "ids ?w ! i = ''req_'' @ show_nat (Suc i)" if "i < length (ids ?w)" for i
    using inv that assms by (simp add: id_inv_def)
  have num: "id_number (ids ?w ! i) = Num (int (Suc i))" if "i < length (ids ?w)" for i
  proof -
    from that assms have "Suc i \<le> 2 ^ 53" by simp
    then show ?thesis using nth [OF that] by (simp only: id_number_fresh)
  qed
  have "distinct (ids ?w)"
    unfolding distinct_conv_nth
  proof (intro allI impI)
    fix i j assume "i < length (ids ?w)" "j < length (ids ?w)" "i \<noteq> j"
    then show "ids ?w ! i \<noteq> ids ?w ! j"
      using num [of i] num [of j] by auto
  qed
  moreover have "\<exists>m n. id_number (ids ?w ! i) = Num m \<and> id_number (ids ?w ! j) = Num n \<and> m < n"
    if "i < j \<and> j < length (ids ?w)" for i j
    using that num [of i] num [of j] by auto
  ultimately show ?thesis by blast
qed

text \<open>
  The order of the ids is the order of their numbers, not the order of the strings: the
  number is not padded, the ninth id is \<open>req_9\<close>, the tenth is \<open>req_10\<close>, and as strings
  \<open>req_10\<close> comes before \<open>req_9\<close>.
\<close>

lemma ids_not_lexicographic:
  "ids (run sample_platform (boot None empty_disk) ten_requests) ! 8 = ''req_9'' \<and>
   ids (run sample_platform (boot None empty_disk) ten_requests) ! 9 = ''req_10'' \<and>
   ids (run sample_platform (boot None empty_disk) ten_requests) ! 9 <
   ids (run sample_platform (boot None empty_disk) ten_requests) ! 8"
  by code_simp

text \<open>
  Three exchanges, a plain request, a CONNECT and another plain request: three distinct
  ids, the first numbered below the third.
\<close>

theorem ids_unique_and_numbered_witness:
  "distinct (ids (run sample_platform (boot None empty_disk) three_exchanges)) \<and>
   (\<exists>m n. id_number (ids (run sample_platform (boot None empty_disk) three_exchanges) ! 0) = Num m \<and>
          id_number (ids (run sample_platform (boot None empty_disk) three_exchanges) ! 2) = Num n \<and>
          m < n)"
proof -
  have "length (ids (run sample_platform (boot None empty_disk) three_exchanges)) = 3"
    by code_simp
  then show ?thesis
    using ids_unique_and_numbered [of sample_platform None empty_disk three_exchanges]
    by simp
qed

section \<open>The request event comes first\<close>

lemma requested_snoc:
  "requested (evs @ [e]) = requested evs \<union> (case e of RequestEv r \<Rightarrow> {id' r} | _ \<Rightarrow> {})"
  by (auto simp: requested_def split: event.splits)

lemma ordered_snoc:
  "ordered (evs @ [e]) \<longleftrightarrow> ordered evs \<and> (\<forall>x. reply_id e = Some x \<longrightarrow> x \<in> requested evs)"
proof
  assume a: "ordered (evs @ [e])"
  have "ordered evs"
    unfolding ordered_def
  proof (intro allI impI)
    fix i x assume i: "i < length evs" and r: "reply_id (evs ! i) = Some x"
    with a have "x \<in> requested (take i (evs @ [e]))"
      unfolding ordered_def by (auto simp: nth_append dest!: spec [of _ i])
    with i show "x \<in> requested (take i evs)" by simp
  qed
  moreover have "\<forall>x. reply_id e = Some x \<longrightarrow> x \<in> requested evs"
    using a unfolding ordered_def by (auto dest!: spec [of _ "length evs"])
  ultimately show "ordered evs \<and> (\<forall>x. reply_id e = Some x \<longrightarrow> x \<in> requested evs)" by blast
next
  assume a: "ordered evs \<and> (\<forall>x. reply_id e = Some x \<longrightarrow> x \<in> requested evs)"
  show "ordered (evs @ [e])"
    unfolding ordered_def
  proof (intro allI impI)
    fix i x assume i: "i < length (evs @ [e])" and r: "reply_id ((evs @ [e]) ! i) = Some x"
    show "x \<in> requested (take i (evs @ [e]))"
    proof (cases "i < length evs")
      case True
      with a r show ?thesis unfolding ordered_def by (auto simp: nth_append)
    next
      case False
      with i have "i = length evs" by simp
      with a r show ?thesis by simp
    qed
  qed
qed

lemma pending_mono: "\<forall>c \<in> set cs. pending c \<subseteq> requested evs \<Longrightarrow> \<forall>c \<in> set cs. pending c \<subseteq> requested (evs @ [e])"
  by (auto simp: requested_snoc)

lemma ord_set:
  "ord_inv w \<Longrightarrow> pending c \<subseteq> requested (events w) \<Longrightarrow> ord_inv (set_conn h c w)"
  using all_update [of "\<lambda>c. pending c \<subseteq> requested (events w)" c "conns w" h]
  by (simp add: ord_inv_def)

lemma ord_reply:
  "ord_inv w \<Longrightarrow> reply_id e = Some x \<Longrightarrow> x \<in> requested (events w) \<Longrightarrow> ord_inv (emit e w)"
  unfolding ord_inv_def by (auto simp: ordered_snoc requested_snoc)

lemma ord_request: "ord_inv w \<Longrightarrow> ord_inv (emit (RequestEv r) w)"
  unfolding ord_inv_def by (auto simp: ordered_snoc requested_snoc)

lemma ord_uncaught [simp]: "ord_inv (w\<lparr>uncaught := u\<rparr>) = ord_inv w"
  and ord_fs [simp]: "ord_inv (w\<lparr>fs := d\<rparr>) = ord_inv w"
  and ord_proxy [simp]: "ord_inv (w\<lparr>proxy := p\<rparr>) = ord_inv w"
  by (simp_all add: ord_inv_def)

lemma ord_append:
  "ord_inv w \<Longrightarrow> pending c \<subseteq> requested (events w) \<Longrightarrow> ord_inv (w\<lparr>conns := conns w @ [c]\<rparr>)"
  unfolding ord_inv_def by auto

lemma ord_pending:
  "ord_inv w \<Longrightarrow> conn_at w h = Some c \<Longrightarrow> pending c \<subseteq> requested (events w)"
  unfolding ord_inv_def conn_at_Some by auto

lemma requested_emit: "requested (events (emit e w)) = requested (events w) \<union> (case e of RequestEv r \<Rightarrow> {id' r} | _ \<Rightarrow> {})"
  by (simp add: requested_snoc)

lemma ord_handleRequest: "ord_inv w \<Longrightarrow> ord_inv (handleRequest m u hs now w)"
  unfolding handleRequest_def next_id_def Let_def
  by (simp add: ord_inv_def pending_def)

lemma ord_clientReq_data:
  "ord_inv w \<Longrightarrow> conn_at w h = Some (Plain c) \<Longrightarrow> h_stage c = Reading \<Longrightarrow>
   ord_inv (clientReq_data h x c w)"
  unfolding clientReq_data_def by (rule ord_set) (simp_all add: pending_def)

lemma ord_clientReq_end:
  "ord_inv w \<Longrightarrow> conn_at w h = Some (Plain c) \<Longrightarrow> ord_inv (clientReq_end P h c w)"
  unfolding clientReq_end_def Let_def
  by (auto split: option.splits sum.splits intro!: ord_set ord_request
           simp: pending_def requested_snoc)

lemma ord_proxyReq_response:
  assumes "ord_inv w" "conn_at w h = Some (Plain c)" "h_stage c = Forwarding"
  shows "ord_inv (proxyReq_response h res c w)"
proof -
  have "pending (Plain c) \<subseteq> requested (events w)" using assms by (simp add: ord_pending)
  with assms show ?thesis
    unfolding proxyReq_response_def Let_def
    by (auto split: sum.splits intro!: ord_set simp: pending_def)
qed

lemma ord_proxyRes_data:
  assumes "ord_inv w" "conn_at w h = Some (Plain c)" "h_stage c = Streaming"
  shows "ord_inv (proxyRes_data h x c w)"
proof -
  have "pending (Plain c) \<subseteq> requested (events w)" using assms by (simp add: ord_pending)
  with assms show ?thesis
    unfolding proxyRes_data_def by (auto intro!: ord_set simp: pending_def)
qed

lemma ord_proxyRes_end:
  assumes "ord_inv w" "conn_at w h = Some (Plain c)" "h_stage c = Streaming"
  shows "ord_inv (proxyRes_end h now c w)"
proof -
  have "pending (Plain c) \<subseteq> requested (events w)" using assms by (simp add: ord_pending)
  with assms show ?thesis
    unfolding proxyRes_end_def Let_def
    by (auto split: option.splits intro!: ord_set ord_reply simp: pending_def)
qed

lemma ord_proxyReq_error:
  assumes "ord_inv w" "conn_at w h = Some (Plain c)" "h_stage c = Forwarding \<or> h_stage c = Streaming"
  shows "ord_inv (proxyReq_error h msg c w)"
proof -
  have "pending (Plain c) \<subseteq> requested (events w)" using assms by (simp add: ord_pending)
  with assms have "h_id c \<in> requested (events w)" by (auto simp: pending_def)
  with assms show ?thesis
    unfolding proxyReq_error_def Let_def
    by (auto split: sum.splits intro!: ord_set ord_reply simp: pending_def)
qed

lemma ord_tunnel_update:
  assumes "ord_inv w" "conn_at w h = Some (Tunnel c)" "id' (c_request c') = id' (c_request c)"
  shows "ord_inv (set_conn h (Tunnel c') w)"
proof -
  have "pending (Tunnel c) \<subseteq> requested (events w)" using assms by (simp add: ord_pending)
  with assms show ?thesis by (auto intro!: ord_set simp: pending_def)
qed

lemma ord_tunnel_reply:
  assumes "ord_inv w" "conn_at w h = Some (Tunnel c)" "reply_id e = Some (id' (c_request c))"
  shows "ord_inv (emit e w)"
proof -
  have "pending (Tunnel c) \<subseteq> requested (events w)" using assms by (simp add: ord_pending)
  with assms show ?thesis by (auto intro!: ord_reply simp: pending_def)
qed

lemma ord_handleHttpsTunnel:
  "ord_inv w \<Longrightarrow> conn_at w h = Some (Tunnel c0) \<Longrightarrow> id' (c_request c) = id' (c_request c0) \<Longrightarrow>
   ord_inv (handleHttpsTunnel h c w)"
proof -
  assume a: "ord_inv w" "conn_at w h = Some (Tunnel c0)" "id' (c_request c) = id' (c_request c0)"
  have "ord_inv (set_conn h (Tunnel c') w)" if "id' (c_request c') = id' (c_request c0)" for c'
    using a(1,2) that by (rule ord_tunnel_update)
  with a(3) show ?thesis
    by (simp add: handleHttpsTunnel_def)
qed

lemma ord_handleHttpsWithMitm:
  assumes "ord_inv w" "conn_at w h = Some (Tunnel c)"
  shows "ord_inv (handleHttpsWithMitm P h now c w)"
proof -
  have t: "ord_inv (handleHttpsTunnel h c' (w\<lparr>fs := d\<rparr>))"
    if "id' (c_request c') = id' (c_request c)" for c' d
    using assms that by (intro ord_handleHttpsTunnel [where ?c0.0 = c]) simp_all
  have m: "ord_inv (emit (ResponseEv r) (set_conn h (Tunnel c') (w\<lparr>fs := d\<rparr>)))"
    if "id' (c_request c') = id' (c_request c)" "id' r = id' (c_request c)" for c' d r
  proof -
    have 1: "ord_inv (set_conn h (Tunnel c') (w\<lparr>fs := d\<rparr>))"
      using assms that by (intro ord_tunnel_update [where c = c]) simp_all
    have "pending (Tunnel c) \<subseteq> requested (events w)" using assms by (simp add: ord_pending)
    then have "id' r \<in> requested (events (set_conn h (Tunnel c') (w\<lparr>fs := d\<rparr>)))"
      using that by (simp add: pending_def)
    with 1 show ?thesis by (intro ord_reply [where x = "id' r"]) simp_all
  qed
  show ?thesis
    unfolding handleHttpsWithMitm_def Let_def
    by (auto split: prod.splits sum.splits intro!: t m)
qed

lemma ord_handleConnect: assumes "ord_inv w" shows "ord_inv (handleConnect P u hs hb now now2 w)"
proof -
  define i where "i = ''req_'' @ show_nat (js_incr (requestId (proxy w)))"
  define request where "request =
     \<lparr>id' = i, method' = ''CONNECT'', url = ''https://'' @ template u, headers = hs,
      body = None, timestamp = now, response = None\<rparr>"
  define c where "c = \<lparr>c_hostname = fst (connect_target u), c_targetPort = snd (connect_target u),
                    c_head = hb, c_request = request, clientSocket = [],
                    clientEnded = False, clientFailed = False, dial = None, connected = False,
                    serverSocket = [], serverEnded = False, serverFailed = False, tls = None,
                    tlsFailed = False\<rparr>"
  define w1 where "w1 = w\<lparr>proxy := (proxy w)\<lparr>requestId := js_incr (requestId (proxy w))\<rparr>\<rparr>"
  define w2 where "w2 = emit (RequestEv request) (w1\<lparr>conns := conns w1 @ [Tunnel c]\<rparr>)"
  have "ord_inv (emit (RequestEv request) w1)"
    using assms by (simp add: w1_def ord_request)
  then have o2: "ord_inv w2"
    unfolding w2_def ord_inv_def by (auto simp: pending_def c_def requested_snoc)
  have at: "conn_at w2 (length (conns w1)) = Some (Tunnel c)"
    by (simp add: w2_def conn_at_def)
  have "handleConnect P u hs hb now now2 w =
     (if caCert (proxy w) \<noteq> None then handleHttpsWithMitm P (length (conns w1)) now2 c w2
      else handleHttpsTunnel (length (conns w1)) c w2)"
    by (simp add: handleConnect_def next_id_def Let_def i_def request_def c_def w1_def w2_def)
  with o2 at show ?thesis
    by (simp add: ord_handleHttpsWithMitm ord_handleHttpsTunnel)
qed

lemma ord_server_connect:
  assumes "ord_inv w" "conn_at w h = Some (Tunnel c)"
  shows "ord_inv (server_connect h now c w)"
  unfolding server_connect_def Let_def
  using assms
  by (intro ord_reply [where x = "id' (c_request c)"] ord_tunnel_update [where c = c])
     (auto dest: ord_pending simp: pending_def)

lemma ord_server_error:
  assumes "ord_inv w" "conn_at w h = Some (Tunnel c)"
  shows "ord_inv (server_error h msg c w)"
  unfolding server_error_def
  using assms
  by (intro ord_tunnel_update [where c = c] ord_tunnel_reply [where c = c and h = h]) simp_all

lemma ord_tunnel_misc:
  assumes "ord_inv w" "conn_at w h = Some (Tunnel c)"
  shows "ord_inv (client_error h c w)" "ord_inv (tls_error h c w)"
    "ord_inv (client_data h x c w)" "ord_inv (server_data h x c w)"
  unfolding client_error_def tls_error_def client_data_def server_data_def
  using assms by (auto intro!: ord_tunnel_update [where c = c])

lemma ord_tls_write: "ord_inv w \<Longrightarrow> ord_inv (tls_write h x w)"
  unfolding tls_write_def
  by (auto split: option.splits conn.splits intro!: ord_tunnel_update)

lemma ord_handleHttpsRequest: "ord_inv w \<Longrightarrow> ord_inv (handleHttpsRequest P host p x parent now w)"
  unfolding handleHttpsRequest_def next_id_def Let_def
  by (auto simp: ord_inv_def pending_def ordered_snoc requested_snoc emit_def
           split: option.splits)

lemma ord_child_update:
  assumes "ord_inv w" "conn_at w h = Some (Child c)" "id' (k_request c') = id' (k_request c)"
  shows "ord_inv (set_conn h (Child c') w)"
proof -
  have "pending (Child c) \<subseteq> requested (events w)" using assms by (simp add: ord_pending)
  with assms show ?thesis by (auto intro!: ord_set simp: pending_def)
qed

lemma ord_child_reply:
  assumes "ord_inv w" "conn_at w h = Some (Child c)" "reply_id e = Some (id' (k_request c))"
  shows "ord_inv (emit e w)"
proof -
  have "pending (Child c) \<subseteq> requested (events w)" using assms by (simp add: ord_pending)
  with assms show ?thesis by (auto intro!: ord_reply simp: pending_def)
qed

lemma ord_child:
  assumes "ord_inv w" "conn_at w h = Some (Child c)"
  shows "ord_inv (child_response h res c w)" "ord_inv (child_data h x c w)"
    "ord_inv (child_end h now c w)" "ord_inv (child_error h msg c w)"
  unfolding child_response_def child_data_def child_end_def child_error_def Let_def
  using assms
  by (auto intro!: ord_tls_write ord_child_update [where c = c]
                   ord_child_reply [where c = c and h = h])

lemma ord_inv_deliver: "ord_inv w \<Longrightarrow> ord_inv (deliver P a w)"
  unfolding deliver_def
  by (cases a)
     (auto simp: Let_def ord_handleRequest ord_clientReq_data ord_clientReq_end
                 ord_proxyReq_response ord_proxyRes_data ord_proxyRes_end ord_proxyReq_error
                 ord_handleConnect ord_server_connect ord_server_error ord_tunnel_misc
                 ord_handleHttpsRequest ord_child
           split: option.splits conn.splits)

lemma ord_inv_run: "ord_inv w \<Longrightarrow> ord_inv (run P w acts)"
  unfolding run_def
  by (induction acts arbitrary: w) (simp_all add: step_def ord_inv_deliver)

lemma ord_inv_boot: "ord_inv (boot ca d)"
  by (simp add: ord_inv_def boot_def ordered_def)

text \<open>
  C2. In every run of the proxy, whatever the platform does and with MITM on or off, an
  event that bears an id as a \<open>response\<close> or an \<open>error\<close> stands after a \<open>request\<close> event of
  the same id.
\<close>

theorem request_before_reply:
  assumes "i < length (events (run P (boot ca d) acts))"
    and "reply_id (events (run P (boot ca d) acts) ! i) = Some x"
  shows "\<exists>j < i. \<exists>r. events (run P (boot ca d) acts) ! j = RequestEv r \<and> id' r = x"
proof -
  let ?evs = "events (run P (boot ca d) acts)"
  have "ordered ?evs" using ord_inv_run [OF ord_inv_boot] by (simp add: ord_inv_def)
  with assms have "x \<in> requested (take i ?evs)" by (simp add: ordered_def)
  then obtain r where r: "RequestEv r \<in> set (take i ?evs)" "id' r = x"
    by (auto simp: requested_def)
  then obtain j where "j < length (take i ?evs)" "take i ?evs ! j = RequestEv r"
    by (auto simp: in_set_conv_nth)
  with r assms show ?thesis by (intro exI [of _ j]) auto
qed

text \<open>
  A CONNECT and the success of its dial: the \<open>response\<close> event is the second event, and the
  \<open>request\<close> event of \<open>req_1\<close> stands before it.
\<close>

theorem request_before_reply_witness:
  "\<exists>j < 1. \<exists>r. events (run sample_platform (boot None empty_disk) tunnel_session) ! j = RequestEv r \<and>
                id' r = ''req_1''"
proof -
  have "1 < length (events (run sample_platform (boot None empty_disk) tunnel_session))"
    by code_simp
  moreover have "reply_id (events (run sample_platform (boot None empty_disk) tunnel_session) ! 1) =
      Some ''req_1''"
    by code_simp
  ultimately show ?thesis by (rule request_before_reply)
qed

section \<open>Durations\<close>

lemma start_ok_mono: "start_ok T c \<Longrightarrow> T \<subseteq> T' \<Longrightarrow> start_ok T' c"
  by (auto simp: start_ok_def split: conn.splits)

lemma time_inv_mono: "time_inv T w \<Longrightarrow> T \<subseteq> T' \<Longrightarrow> time_inv T' w"
  by (auto simp: time_inv_def intro: start_ok_mono)

lemma time_at: "time_inv T w \<Longrightarrow> conn_at w h = Some c \<Longrightarrow> start_ok T c"
  by (auto simp: time_inv_def conn_at_Some)

lemma good_noop: "time_inv T w \<Longrightarrow> good T rs w w"
  by (auto simp: good_def intro: time_inv_mono)

lemma good_emit: "good T rs w w' \<Longrightarrow> resp_ok T rs e \<Longrightarrow> good T rs w (emit e w')"
  by (auto simp: good_def time_inv_def)

lemma good_set: "good T rs w w' \<Longrightarrow> start_ok (T \<union> set rs) c' \<Longrightarrow> good T rs w (set_conn h c' w')"
  using all_update [of "start_ok (T \<union> set rs)" c' "conns w'" h]
  by (auto simp: good_def time_inv_def)

lemma good_field:
  "good T rs w w' \<Longrightarrow> good T rs w (w'\<lparr>uncaught := u\<rparr>)"
  "good T rs w w' \<Longrightarrow> good T rs w (w'\<lparr>fs := d\<rparr>)"
  "good T rs w w' \<Longrightarrow> good T rs w (w'\<lparr>proxy := p\<rparr>)"
  by (auto simp: good_def time_inv_def)

lemma good_append:
  "good T rs w w' \<Longrightarrow> start_ok (T \<union> set rs) c' \<Longrightarrow> good T rs w (w'\<lparr>conns := conns w' @ [c']\<rparr>)"
  by (auto simp: good_def time_inv_def)

lemma good_tls_write: assumes "good T rs w w'" shows "good T rs w (tls_write h x w')"
proof (cases "conn_at w' h")
  case None
  with assms show ?thesis by (simp add: tls_write_def)
next
  case (Some c)
  show ?thesis
  proof (cases c)
    case (Tunnel t)
    with Some assms have "start_ok (T \<union> set rs) (Tunnel t)"
      by (auto simp: good_def dest: time_at)
    then have "start_ok (T \<union> set rs) (Tunnel (t\<lparr>clientSocket := clientSocket t @ [Encrypted x]\<rparr>))"
      by (simp add: start_ok_def)
    with Some Tunnel assms show ?thesis by (simp add: tls_write_def good_set)
  qed (use Some assms in \<open>simp_all add: tls_write_def\<close>)
qed

lemma good_create:
  "good T rs w w' \<Longrightarrow> start_ok (T \<union> set rs) c' \<Longrightarrow>
   good T rs w (w'\<lparr>proxy := p, conns := conns w' @ [c']\<rparr>)"
  by (auto simp: good_def time_inv_def)

lemmas good_intros =
  good_emit good_set good_field good_append good_create good_tls_write good_noop

lemma good_handleRequest: "time_inv T w \<Longrightarrow> good T [now] w (handleRequest m u hs now w)"
  unfolding handleRequest_def next_id_def Let_def
  by (auto intro!: good_intros simp: start_ok_def)

lemma good_clientReq_data:
  "time_inv T w \<Longrightarrow> conn_at w h = Some (Plain c) \<Longrightarrow> good T [] w (clientReq_data h x c w)"
  unfolding clientReq_data_def
  by (auto intro!: good_intros simp: start_ok_def dest: time_at)

lemma good_clientReq_end:
  "time_inv T w \<Longrightarrow> conn_at w h = Some (Plain c) \<Longrightarrow> good T [] w (clientReq_end P h c w)"
  unfolding clientReq_end_def Let_def
  by (auto intro!: good_intros simp: start_ok_def resp_ok_def dest: time_at
           split: option.splits sum.splits)

lemma good_proxyReq_response:
  "time_inv T w \<Longrightarrow> conn_at w h = Some (Plain c) \<Longrightarrow> h_stage c = Forwarding \<Longrightarrow>
   good T [] w (proxyReq_response h res c w)"
  unfolding proxyReq_response_def Let_def
  by (auto intro!: good_intros simp: start_ok_def resp_ok_def dest: time_at
           split: option.splits sum.splits)

lemma good_proxyRes_data:
  "time_inv T w \<Longrightarrow> conn_at w h = Some (Plain c) \<Longrightarrow> good T [] w (proxyRes_data h x c w)"
  unfolding proxyRes_data_def Let_def
  by (auto intro!: good_intros simp: start_ok_def resp_ok_def dest: time_at)

lemma good_proxyRes_end:
  "time_inv T w \<Longrightarrow> conn_at w h = Some (Plain c) \<Longrightarrow> good T [now] w (proxyRes_end h now c w)"
  unfolding proxyRes_end_def Let_def
  by (auto intro!: good_intros simp: start_ok_def resp_ok_def capture_def dest: time_at
           split: option.splits)

lemma good_proxyReq_error:
  "time_inv T w \<Longrightarrow> conn_at w h = Some (Plain c) \<Longrightarrow> h_stage c \<noteq> Reading \<Longrightarrow>
   good T [] w (proxyReq_error h msg c w)"
  unfolding proxyReq_error_def Let_def
  by (auto intro!: good_intros simp: start_ok_def resp_ok_def dest: time_at
           split: option.splits sum.splits)

lemma good_handleConnect:
  "time_inv T w \<Longrightarrow> good T [now, now2] w (handleConnect P u hs hb now now2 w)"
  unfolding handleConnect_def handleHttpsWithMitm_def handleHttpsTunnel_def next_id_def Let_def
  by (auto intro!: good_intros simp: start_ok_def resp_ok_def established_def
           split: option.splits sum.splits prod.splits)

lemma good_server_connect:
  "time_inv T w \<Longrightarrow> conn_at w h = Some (Tunnel c) \<Longrightarrow> good T [now] w (server_connect h now c w)"
  unfolding server_connect_def Let_def
  by (auto intro!: good_intros simp: start_ok_def resp_ok_def established_def dest: time_at)

lemma good_tunnel_misc:
  assumes "time_inv T w" "conn_at w h = Some (Tunnel c)"
  shows "good T [] w (server_error h msg c w)" "good T [] w (client_error h c w)"
    "good T [] w (tls_error h c w)" "good T [] w (client_data h x c w)"
    "good T [] w (server_data h x c w)"
  unfolding server_error_def client_error_def tls_error_def client_data_def server_data_def
  using assms
  by (auto intro!: good_intros simp: start_ok_def resp_ok_def dest: time_at)

lemma good_handleHttpsRequest:
  "time_inv T w \<Longrightarrow> good T [now] w (handleHttpsRequest P host p x parent now w)"
  unfolding handleHttpsRequest_def next_id_def Let_def
  by (auto intro!: good_intros simp: start_ok_def resp_ok_def split: option.splits)

lemma good_child:
  assumes "time_inv T w" "conn_at w h = Some (Child c)"
  shows "good T [] w (child_response h res c w)" "good T [] w (child_data h x c w)"
    "good T [now] w (child_end h now c w)" "good T [] w (child_error h msg c w)"
  unfolding child_response_def child_data_def child_end_def child_error_def Let_def
  using assms
  by (auto intro!: good_intros simp: start_ok_def resp_ok_def capture_def dest: time_at)

lemma good_deliver: "time_inv T w \<Longrightarrow> good T (readings a) w (deliver P a w)"
  unfolding deliver_def
  by (cases a)
     (auto simp: Let_def good_noop good_handleRequest good_clientReq_data good_clientReq_end
                 good_proxyReq_response good_proxyRes_data good_proxyRes_end good_proxyReq_error
                 good_handleConnect good_server_connect good_tunnel_misc
                 good_handleHttpsRequest good_child
           split: option.splits conn.splits)

lemma good_step: "time_inv T w \<Longrightarrow> good T (readings a) w (step P w a)"
  by (simp add: step_def good_deliver good_noop)

lemma clock_snoc: "clock (acts @ [a]) = clock acts @ readings a"
  by (simp add: clock_def)

lemma time_inv_run: "time_inv (set (clock acts)) (run P (boot ca d) acts)"
proof (induction acts rule: rev_induct)
  case Nil
  show ?case by (simp add: run_def boot_def time_inv_def)
next
  case (snoc a acts)
  from good_step [OF snoc, where a = a and P = P] show ?case
    by (simp add: run_snoc clock_snoc good_def)
qed

lemma sorted_le_last: "sorted xs \<Longrightarrow> x \<in> set xs \<Longrightarrow> x \<le> last xs"
  by (induction xs) (auto split: if_splits)

lemma completion_emits:
  assumes "time_inv T w" "uncaught w = None" "completes w a"
  shows "\<exists>r. emitted P w a = [ResponseEv r]"
proof (cases a)
  case (ProxyResEnd h now)
  show ?thesis
  proof (cases "conn_at w h")
    case None
    with assms(3) ProxyResEnd show ?thesis by (simp add: completes_def)
  next
    case (Some k)
    show ?thesis
    proof (cases k)
      case (Plain c)
      with Some assms(3) ProxyResEnd have st: "h_stage c = Streaming" by (simp add: completes_def)
      from assms(1) Some Plain have "start_ok T (Plain c)" by (auto dest: time_at)
      with st obtain r where "h_request c = Some r" by (auto simp: start_ok_def)
      with Some Plain st assms(2) ProxyResEnd show ?thesis
        by (simp add: emitted_def step_def deliver_def proxyRes_end_def Let_def)
    next
      case (Tunnel c)
      with Some assms(3) ProxyResEnd show ?thesis by (simp add: completes_def)
    next
      case (Child c)
      with Some assms(3) ProxyResEnd have st: "k_stage c = Streaming" by (simp add: completes_def)
      have "events (tls_write h' x w') = events w'" for h' x w'
        by (simp add: tls_write_def split: option.splits conn.splits)
      with Some Child st assms(2) ProxyResEnd show ?thesis
        by (simp add: emitted_def step_def deliver_def child_end_def Let_def)
    qed
  qed
next
  case (ServerConnect h now)
  show ?thesis
  proof (cases "conn_at w h")
    case None
    with assms(3) ServerConnect show ?thesis by (simp add: completes_def)
  next
    case (Some k)
    with assms(2,3) ServerConnect show ?thesis
      by (cases k)
         (simp_all add: completes_def emitted_def step_def deliver_def server_connect_def Let_def)
  qed
qed (use assms(3) in \<open>simp_all add: completes_def\<close>)

text \<open>
  C9, as the code has it. Every \<open>response\<close> event that an event makes the proxy emit
  carries an exchange whose response is set and whose \<open>duration\<close> is the reading of
  \<open>Date.now()\<close> that the completing handler takes minus the exchange's \<open>timestamp\<close>, which is
  the reading taken when the exchange started. The duration is not negative when the
  readings of the run have not decreased. An event that completes an exchange (plain HTTP,
  request read from a TLS session, or tunnel) does make the proxy emit one \<open>response\<close>
  event, and nothing else.
\<close>

theorem duration_is_clock_difference:
  "(\<forall>r. ResponseEv r \<in> set (emitted P (run P (boot ca d) acts) a) \<longrightarrow>
      (\<exists>res. response r = Some res \<and> readings a \<noteq> [] \<and>
             duration res = last (readings a) - timestamp r \<and>
             timestamp r \<in> set (clock (acts @ [a])) \<and>
             (sorted (clock (acts @ [a])) \<longrightarrow> 0 \<le> duration res))) \<and>
   (uncaught (run P (boot ca d) acts) = None \<and> completes (run P (boot ca d) acts) a \<longrightarrow>
      (\<exists>r. emitted P (run P (boot ca d) acts) a = [ResponseEv r]))"
proof (intro conjI allI impI)
  let ?w = "run P (boot ca d) acts"
  have ti: "time_inv (set (clock acts)) ?w" by (rule time_inv_run)
  {
    fix r assume r: "ResponseEv r \<in> set (emitted P ?w a)"
    from good_step [OF ti, where a = a and P = P]
    obtain es where es: "events (step P ?w a) = events ?w @ es"
        "\<forall>e \<in> set es. resp_ok (set (clock acts)) (readings a) e"
      by (auto simp: good_def)
    from es(1) have "emitted P ?w a = es" by (simp add: emitted_def)
    with r es(2) have "resp_ok (set (clock acts)) (readings a) (ResponseEv r)" by auto
    then obtain res where res: "response r = Some res" "readings a \<noteq> []"
        "duration res = last (readings a) - timestamp r"
        "timestamp r \<in> set (clock acts) \<union> set (readings a)"
      by (auto simp: resp_ok_def)
    from res(4) have mem: "timestamp r \<in> set (clock (acts @ [a]))" by (simp add: clock_snoc)
    have "0 \<le> duration res" if "sorted (clock (acts @ [a]))"
    proof -
      from that mem have "timestamp r \<le> last (clock (acts @ [a]))" by (rule sorted_le_last)
      also from res(2) have "last (clock (acts @ [a])) = last (readings a)"
        by (simp add: clock_snoc)
      finally show ?thesis using res(3) by simp
    qed
    with res mem
    show "\<exists>res. response r = Some res \<and> readings a \<noteq> [] \<and>
             duration res = last (readings a) - timestamp r \<and>
             timestamp r \<in> set (clock (acts @ [a])) \<and>
             (sorted (clock (acts @ [a])) \<longrightarrow> 0 \<le> duration res)"
      by blast
  }
  assume "uncaught ?w = None \<and> completes ?w a"
  with ti show "\<exists>r. emitted P ?w a = [ResponseEv r]"
    by (auto intro: completion_emits)
qed

text \<open>
  A plain request received at 1000 whose response ends at 1075, a CONNECT received at 1000
  whose dial succeeds at 1040, and a request read from a TLS session at 1010 whose response
  ends at 1090: each completion emits one \<open>response\<close> event, with the durations 75, 40 and
  80.
\<close>

theorem duration_is_clock_difference_witness:
  "(\<exists>r res. emitted sample_platform (run sample_platform (boot None empty_disk) plain_session)
               (ProxyResEnd 0 1075) = [ResponseEv r] \<and>
            response r = Some res \<and> duration res = 75) \<and>
   (\<exists>r res. emitted sample_platform
               (run sample_platform (boot None empty_disk)
                  [Connect (Some ''example.com:443'') [] ''hello'' 1000 1000])
               (ServerConnect 0 1040) = [ResponseEv r] \<and>
            response r = Some res \<and> duration res = 40) \<and>
   (\<exists>r res. emitted mitm_platform
               (run mitm_platform (boot (Some (''k'', ''c'')) disk_after_issuance) mitm_session)
               (ProxyResEnd 1 1090) = [ResponseEv r] \<and>
            response r = Some res \<and> duration res = 80)"
proof -
  have stamp: "\<exists>r res. emitted P (run P (boot ca d) acts) a = [ResponseEv r] \<and>
      response r = Some res \<and> duration res = x - t"
    if "uncaught (run P (boot ca d) acts) = None" "completes (run P (boot ca d) acts) a"
      "last (readings a) = x"
      "case emitted P (run P (boot ca d) acts) a of
         [ResponseEv r] \<Rightarrow> timestamp r = t | _ \<Rightarrow> False"
    for P ca d acts a x t
  proof -
    from duration_is_clock_difference [of P ca d acts a] that(1,2)
    obtain r where r: "emitted P (run P (boot ca d) acts) a = [ResponseEv r]"
      by blast
    then have "ResponseEv r \<in> set (emitted P (run P (boot ca d) acts) a)" by simp
    with duration_is_clock_difference [of P ca d acts a]
    obtain res where "response r = Some res" "duration res = last (readings a) - timestamp r"
      by blast
    with r that(3,4) show ?thesis by simp
  qed
  have "\<exists>r res. emitted sample_platform (run sample_platform (boot None empty_disk) plain_session)
               (ProxyResEnd 0 1075) = [ResponseEv r] \<and>
            response r = Some res \<and> duration res = 1075 - 1000"
    by (rule stamp) (code_simp, code_simp, simp, code_simp)
  moreover have "\<exists>r res. emitted sample_platform
               (run sample_platform (boot None empty_disk)
                  [Connect (Some ''example.com:443'') [] ''hello'' 1000 1000])
               (ServerConnect 0 1040) = [ResponseEv r] \<and>
            response r = Some res \<and> duration res = 1040 - 1000"
    by (rule stamp) (code_simp, code_simp, simp, code_simp)
  moreover have "\<exists>r res. emitted mitm_platform
               (run mitm_platform (boot (Some (''k'', ''c'')) disk_after_issuance) mitm_session)
               (ProxyResEnd 1 1090) = [ResponseEv r] \<and>
            response r = Some res \<and> duration res = 1090 - 1010"
    by (rule stamp) (code_simp, code_simp, simp, code_simp)
  ultimately show ?thesis by simp
qed

text \<open>
  The claim as stated fails when the clock is set back between the two readings: for a
  CONNECT received when \<open>Date.now()\<close> reads 1000 whose dial succeeds when it reads 900, the
  exchange is completed with the duration \<open>-100\<close>.
\<close>

theorem duration_negative_after_clock_step:
  "emitted sample_platform
     (run sample_platform (started 8080 empty_disk)
        [Connect (Some ''example.com:443'') [] ''hello'' 1000 1000])
     (ServerConnect 0 900) =
   [ResponseEv
      \<lparr>id' = ''req_1'', method' = ''CONNECT'', url = ''https://example.com:443'',
       headers = [], body = None, timestamp = 1000,
       response = Some \<lparr>status = 200, statusText = ''Connection Established (Tunnel)'',
                         res_headers = [], res_body = None, duration = - 100\<rparr>\<rparr>]"
  by code_simp

section \<open>Settled connections and rejected URLs\<close>

lemma settled_deliver:
  assumes "conn_at w h = Some (Plain c)"
    and "h_stage c = Rejected \<or> h_stage c = Failed \<or> h_stage c = Completed"
  shows "conn_at (deliver P a w) h = Some (Plain c)"
proof (cases a)
  case (Incoming m u hs now)
  with assms show ?thesis
    by (simp add: deliver_def handleRequest_def next_id_def Let_def conn_at_append)
next
  case (ReqData h' x)
  with assms show ?thesis
    by (auto simp: deliver_def clientReq_data_def conn_at_set_conn split: option.splits conn.splits)
next
  case (ReqEnd h')
  with assms show ?thesis
    by (auto simp: deliver_def clientReq_end_def conn_at_set_conn Let_def
             split: option.splits conn.splits sum.splits)
next
  case (ProxyRes h' sc sm hs)
  with assms show ?thesis
    by (auto simp: deliver_def proxyReq_response_def child_response_def conn_at_set_conn Let_def
             split: option.splits conn.splits sum.splits)
next
  case (ProxyResData h' x)
  with assms show ?thesis
    by (auto simp: deliver_def proxyRes_data_def child_data_def conn_at_set_conn
             split: option.splits conn.splits)
next
  case (ProxyResEnd h' now)
  show ?thesis
  proof (cases "conn_at w h'")
    case None
    with ProxyResEnd assms show ?thesis by (simp add: deliver_def)
  next
    case (Some c')
    show ?thesis
    proof (cases c')
      case (Plain x)
      with Some ProxyResEnd assms show ?thesis
        by (auto simp: deliver_def proxyRes_end_def conn_at_set_conn Let_def
                 split: option.splits)
    next
      case (Tunnel x)
      with Some ProxyResEnd assms show ?thesis by (simp add: deliver_def)
    next
      case (Child x)
      with Some assms have ne: "h \<noteq> h'" by auto
      have "conn_at (tls_write p t (set_conn h' k (emit e w))) h = Some (Plain c)" for p t k e
        using assms ne by (intro conn_at_tls_write) (simp add: conn_at_set_conn)
      with Some Child ProxyResEnd assms show ?thesis
        by (simp add: deliver_def child_end_def Let_def)
    qed
  qed
next
  case (ProxyReqError h' msg)
  with assms show ?thesis
    by (auto simp: deliver_def proxyReq_error_def child_error_def conn_at_set_conn Let_def
             split: option.splits conn.splits sum.splits)
next
  case (Connect u hs hb now now2)
  from assms have "h < length (conns w)" by (simp add: conn_at_Some)
  with Connect assms show ?thesis
    by (auto simp: deliver_def handleConnect_def handleHttpsWithMitm_def handleHttpsTunnel_def
                   next_id_def Let_def conn_at_def nth_append
             split: option.splits sum.splits prod.splits)
next
  case (ServerConnect h' now)
  with assms show ?thesis
    by (auto simp: deliver_def server_connect_def conn_at_set_conn Let_def
             split: option.splits conn.splits)
next
  case (ServerError h' msg)
  with assms show ?thesis
    by (auto simp: deliver_def server_error_def conn_at_set_conn
             split: option.splits conn.splits)
next
  case (ClientError h')
  with assms show ?thesis
    by (auto simp: deliver_def client_error_def conn_at_set_conn
             split: option.splits conn.splits)
next
  case (ClientData h' x)
  with assms show ?thesis
    by (auto simp: deliver_def client_data_def conn_at_set_conn
             split: option.splits conn.splits)
next
  case (ServerData h' x)
  with assms show ?thesis
    by (auto simp: deliver_def server_data_def conn_at_set_conn
             split: option.splits conn.splits)
next
  case (TlsData h' x now)
  from assms have "h < length (conns w)" by (simp add: conn_at_Some)
  with TlsData assms show ?thesis
    by (auto simp: deliver_def handleHttpsRequest_def next_id_def Let_def conn_at_def nth_append
             split: option.splits conn.splits)
next
  case (TlsError h')
  with assms show ?thesis
    by (auto simp: deliver_def tls_error_def conn_at_set_conn
             split: option.splits conn.splits)
qed

lemma settled_run:
  assumes "conn_at w h = Some (Plain c)"
    and "h_stage c = Rejected \<or> h_stage c = Failed \<or> h_stage c = Completed"
  shows "conn_at (run P w acts) h = Some (Plain c)"
  using assms unfolding run_def
  by (induction acts arbitrary: w) (simp_all add: step_def settled_deliver)

lemma ac_emit [simp]: "all_conns Q (emit e w) = all_conns Q w"
  and ac_uncaught [simp]: "all_conns Q (w\<lparr>uncaught := u\<rparr>) = all_conns Q w"
  and ac_fs [simp]: "all_conns Q (w\<lparr>fs := d\<rparr>) = all_conns Q w"
  by (simp_all add: all_conns_def)

lemma ac_set: "all_conns Q w \<Longrightarrow> Q c' \<Longrightarrow> all_conns Q (set_conn h c' w)"
  using all_update [of Q c' "conns w" h] by (simp add: all_conns_def)

lemma ac_create:
  "all_conns Q w \<Longrightarrow> Q c' \<Longrightarrow> all_conns Q (w\<lparr>proxy := p, conns := conns w @ [c']\<rparr>)"
  by (simp add: all_conns_def)

lemma ac_at: "all_conns Q w \<Longrightarrow> conn_at w h = Some c \<Longrightarrow> Q c"
  by (auto simp: all_conns_def conn_at_Some)

lemma unread_tls_write: "all_conns unread w \<Longrightarrow> all_conns unread (tls_write h x w)"
  by (auto simp: tls_write_def unread_def split: option.splits conn.splits intro!: ac_set)

lemma unread_deliver:
  assumes "all_conns unread w"
  shows "all_conns unread (deliver P a w)"
proof (cases a)
  case (Incoming m u hs now)
  with assms show ?thesis
    by (auto simp: deliver_def handleRequest_def next_id_def Let_def unread_def intro!: ac_create)
next
  case (ReqData h' x)
  with assms show ?thesis
    by (auto simp: deliver_def clientReq_data_def unread_def dest: ac_at
             split: option.splits conn.splits intro!: ac_set)
next
  case (ReqEnd h')
  show ?thesis
  proof (cases "conn_at w h'")
    case None
    with ReqEnd assms show ?thesis by (simp add: deliver_def)
  next
    case (Some k)
    with assms have "unread k" by (rule ac_at)
    with Some ReqEnd assms show ?thesis
      by (cases k)
         (auto simp: deliver_def clientReq_end_def unread_def Let_def
               split: option.splits sum.splits intro!: ac_set)
  qed
next
  case (ProxyRes h' sc sm hs)
  with assms show ?thesis
    by (auto simp: deliver_def proxyReq_response_def child_response_def unread_def Let_def
             split: option.splits conn.splits sum.splits intro!: ac_set)
next
  case (ProxyResData h' x)
  with assms show ?thesis
    by (auto simp: deliver_def proxyRes_data_def child_data_def unread_def
             split: option.splits conn.splits intro!: ac_set)
next
  case (ProxyResEnd h' now)
  with assms show ?thesis
    by (auto simp: deliver_def proxyRes_end_def child_end_def unread_def Let_def
             split: option.splits conn.splits intro!: ac_set unread_tls_write)
next
  case (ProxyReqError h' msg)
  with assms show ?thesis
    by (auto simp: deliver_def proxyReq_error_def child_error_def unread_def Let_def
             split: option.splits conn.splits sum.splits intro!: ac_set)
next
  case (Connect u hs hb now now2)
  with assms show ?thesis
    by (auto simp: deliver_def handleConnect_def handleHttpsWithMitm_def handleHttpsTunnel_def
                   next_id_def Let_def unread_def
             split: option.splits sum.splits prod.splits intro!: ac_set ac_create)
next
  case (ServerConnect h' now)
  with assms show ?thesis
    by (auto simp: deliver_def server_connect_def unread_def Let_def
             split: option.splits conn.splits intro!: ac_set)
next
  case (ServerError h' msg)
  with assms show ?thesis
    by (auto simp: deliver_def server_error_def unread_def
             split: option.splits conn.splits intro!: ac_set)
next
  case (ClientError h')
  with assms show ?thesis
    by (auto simp: deliver_def client_error_def unread_def
             split: option.splits conn.splits intro!: ac_set)
next
  case (ClientData h' x)
  with assms show ?thesis
    by (auto simp: deliver_def client_data_def unread_def
             split: option.splits conn.splits intro!: ac_set)
next
  case (ServerData h' x)
  with assms show ?thesis
    by (auto simp: deliver_def server_data_def unread_def
             split: option.splits conn.splits intro!: ac_set)
next
  case (TlsData h' x now)
  with assms show ?thesis
    by (auto simp: deliver_def handleHttpsRequest_def next_id_def Let_def unread_def
             split: option.splits conn.splits intro!: ac_create)
next
  case (TlsError h')
  with assms show ?thesis
    by (auto simp: deliver_def tls_error_def unread_def
             split: option.splits conn.splits intro!: ac_set)
qed

lemma unread_run: "all_conns unread w \<Longrightarrow> all_conns unread (run P w acts)"
  unfolding run_def
  by (induction acts arbitrary: w) (simp_all add: step_def unread_deliver)

lemma unread_boot: "all_conns unread (boot ca d)"
  by (simp add: all_conns_def boot_def)

text \<open>
  C7. Let a plain request be fully read in a run of the proxy, and let \<open>new URL\<close> reject its
  URL. Then the \<open>end\<close> of the request emits the \<open>request\<close> event of the exchange, and from
  then on, whatever happens, the client has been sent status 400 and the body
  \<open>Invalid URL\<close> and the reply is finished, no upstream request exists, and the exchange
  has no response.
\<close>

theorem invalid_url_rejected:
  assumes "conn_at (run P (boot ca d) acts) h = Some (Plain c)" "h_stage c = Reading"
    and "uncaught (run P (boot ca d) acts) = None"
    and "new_URL P (h_url c) = None"
  shows "\<exists>r c'. events (step P (run P (boot ca d) acts) (ReqEnd h)) =
                   events (run P (boot ca d) acts) @ [RequestEv r] \<and>
                 id' r = h_id c \<and> url r = h_url c \<and> response r = None \<and>
                 (\<forall>more. conn_at (run P (step P (run P (boot ca d) acts) (ReqEnd h)) more) h =
                           Some (Plain c')) \<and>
                 statusCode (clientRes c') = Some 400 \<and>
                 written (clientRes c') = [''Invalid URL''] \<and> finished (clientRes c') \<and>
                 proxyReq c' = None \<and> h_request c' = Some r"
proof -
  let ?w = "run P (boot ca d) acts"
  define r where "r = \<lparr>id' = h_id c, method' = or_else (h_method c) ''GET'', url = h_url c,
             headers = h_headers c,
             body = (if h_body c = [] then None else Some (h_body c)),
             timestamp = h_startTime c, response = None\<rparr>"
  define c' where "c' = c\<lparr>h_request := Some r, h_stage := Rejected,
      clientRes := end_with ''Invalid URL''
         (new_ServerResponse\<lparr>headersSent := True, statusCode := Some 400, head_headers := []\<rparr>)\<rparr>"
  have "unread (Plain c)"
    using unread_run [OF unread_boot] assms(1) by (rule ac_at)
  with assms(2) have fresh: "clientRes c = new_ServerResponse" "proxyReq c = None"
    by (simp_all add: unread_def)
  have st: "step P ?w (ReqEnd h) = set_conn h (Plain c') (emit (RequestEv r) ?w)"
    using assms fresh
    by (simp add: step_def deliver_def clientReq_end_def Let_def writeHead_def
                  new_ServerResponse_def r_def c'_def)
  have at: "conn_at (step P ?w (ReqEnd h)) h = Some (Plain c')"
    using assms(1) by (simp add: st conn_at_set_conn conn_at_Some)
  have "conn_at (run P (step P ?w (ReqEnd h)) more) h = Some (Plain c')" for more
    using at by (rule settled_run) (simp add: c'_def)
  moreover have "events (step P ?w (ReqEnd h)) = events ?w @ [RequestEv r]"
    by (simp add: st)
  ultimately show ?thesis
    using fresh
    by (intro exI [of _ r] exI [of _ c'])
       (simp add: r_def c'_def end_with_def new_ServerResponse_def)
qed

text \<open>
  A request for \<open>/relative\<close>, which \<open>new URL\<close> rejects: its end is answered with 400.
\<close>

theorem invalid_url_rejected_witness:
  "\<exists>c r c'. conn_at (run sample_platform (boot None empty_disk) bad_url_session) 0 = Some (Plain c) \<and>
      h_url c = ''/relative'' \<and>
      events (step sample_platform (run sample_platform (boot None empty_disk) bad_url_session) (ReqEnd 0)) =
        events (run sample_platform (boot None empty_disk) bad_url_session) @ [RequestEv r] \<and>
      id' r = h_id c \<and> url r = h_url c \<and> response r = None \<and>
      (\<forall>more. conn_at (run sample_platform
                 (step sample_platform (run sample_platform (boot None empty_disk) bad_url_session) (ReqEnd 0))
                 more) 0 = Some (Plain c')) \<and>
      statusCode (clientRes c') = Some 400 \<and>
      written (clientRes c') = [''Invalid URL''] \<and> finished (clientRes c') \<and>
      proxyReq c' = None \<and> h_request c' = Some r"
proof -
  let ?w = "run sample_platform (boot None empty_disk) bad_url_session"
  have "case conn_at ?w 0 of
          Some (Plain c) \<Rightarrow> h_stage c = Reading \<and> h_url c = ''/relative'' \<and>
                             new_URL sample_platform (h_url c) = None
        | _ \<Rightarrow> False"
    by code_simp
  then obtain c where c: "conn_at ?w 0 = Some (Plain c)" "h_stage c = Reading"
      "h_url c = ''/relative''" "new_URL sample_platform (h_url c) = None"
    by (auto split: option.splits conn.splits)
  have u: "uncaught ?w = None" by code_simp
  from invalid_url_rejected [OF c(1,2) u c(4)] c(1,3) show ?thesis by blast
qed

section \<open>The reply to CONNECT in tunnel mode\<close>

lemma tunnel_update:
  assumes "tunnel_inv w" "conn_at w h = Some (Tunnel c)"
    and "tunnel_ok (Tunnel c) \<Longrightarrow> tunnel_ok (Tunnel c')"
  shows "tunnel_inv (set_conn h (Tunnel c') w)" "tunnel_inv (set_conn h (Tunnel c') (emit e w))"
    "tunnel_inv (emit e (set_conn h (Tunnel c') w))"
proof -
  from assms(1,2) have "tunnel_ok (Tunnel c)" by (auto simp: tunnel_inv_def dest: ac_at)
  with assms(3) have "tunnel_ok (Tunnel c')" by simp
  with assms(1) show "tunnel_inv (set_conn h (Tunnel c') w)"
    "tunnel_inv (set_conn h (Tunnel c') (emit e w))"
    "tunnel_inv (emit e (set_conn h (Tunnel c') w))"
    by (auto simp: tunnel_inv_def intro!: ac_set)
qed

lemma tunnel_deliver:
  assumes "tunnel_inv w"
  shows "tunnel_inv (deliver P a w)"
proof (cases a)
  case (Incoming m u hs now)
  with assms show ?thesis
    by (auto simp: tunnel_inv_def deliver_def handleRequest_def next_id_def Let_def tunnel_ok_def
             intro!: ac_create)
next
  case (ReqData h' x)
  with assms show ?thesis
    by (auto simp: tunnel_inv_def deliver_def clientReq_data_def tunnel_ok_def
             split: option.splits conn.splits intro!: ac_set)
next
  case (ReqEnd h')
  with assms show ?thesis
    by (auto simp: tunnel_inv_def deliver_def clientReq_end_def tunnel_ok_def Let_def
             split: option.splits conn.splits sum.splits intro!: ac_set)
next
  case (ProxyRes h' sc sm hs)
  with assms show ?thesis
    by (auto simp: tunnel_inv_def deliver_def proxyReq_response_def tunnel_ok_def Let_def
             split: option.splits conn.splits sum.splits intro!: ac_set dest: ac_at)
next
  case (ProxyResData h' x)
  with assms show ?thesis
    by (auto simp: tunnel_inv_def deliver_def proxyRes_data_def tunnel_ok_def
             split: option.splits conn.splits intro!: ac_set dest: ac_at)
next
  case (ProxyResEnd h' now)
  with assms show ?thesis
    by (auto simp: tunnel_inv_def deliver_def proxyRes_end_def tunnel_ok_def Let_def
             split: option.splits conn.splits intro!: ac_set dest: ac_at)
next
  case (ProxyReqError h' msg)
  with assms show ?thesis
    by (auto simp: tunnel_inv_def deliver_def proxyReq_error_def tunnel_ok_def Let_def
             split: option.splits conn.splits sum.splits intro!: ac_set dest: ac_at)
next
  case (Connect u hs hb now now2)
  with assms show ?thesis
    by (auto simp: tunnel_inv_def deliver_def handleConnect_def handleHttpsTunnel_def
                   next_id_def Let_def tunnel_ok_def
             intro!: ac_set ac_create)
next
  case (ServerConnect h' now)
  with assms show ?thesis
    by (auto simp: deliver_def server_connect_def Let_def tunnel_ok_def
             split: option.splits conn.splits intro!: tunnel_update)
next
  case (ServerError h' msg)
  with assms show ?thesis
    by (auto simp: deliver_def server_error_def tunnel_ok_def
             split: option.splits conn.splits if_splits intro!: tunnel_update)
next
  case (ClientError h')
  with assms show ?thesis
    by (auto simp: deliver_def client_error_def tunnel_ok_def
             split: option.splits conn.splits if_splits intro!: tunnel_update)
next
  case (ClientData h' x)
  with assms show ?thesis
    by (auto simp: deliver_def client_data_def tunnel_ok_def
             split: option.splits conn.splits if_splits intro!: tunnel_update)
next
  case (ServerData h' x)
  with assms show ?thesis
    by (auto simp: deliver_def server_data_def tunnel_ok_def
             split: option.splits conn.splits if_splits intro!: tunnel_update)
next
  case (TlsData h' x now)
  show ?thesis
  proof (cases "conn_at w h'")
    case None
    with TlsData assms show ?thesis by (simp add: deliver_def)
  next
    case (Some k)
    with assms have "tunnel_ok k" by (auto simp: tunnel_inv_def dest: ac_at)
    with Some TlsData assms show ?thesis
      by (cases k) (simp_all add: deliver_def tunnel_ok_def)
  qed
next
  case (TlsError h')
  show ?thesis
  proof (cases "conn_at w h'")
    case None
    with TlsError assms show ?thesis by (simp add: deliver_def)
  next
    case (Some k)
    with assms have "tunnel_ok k" by (auto simp: tunnel_inv_def dest: ac_at)
    with Some TlsError assms show ?thesis
      by (cases k) (simp_all add: deliver_def tunnel_ok_def)
  qed
qed

lemma tunnel_run: "tunnel_inv w \<Longrightarrow> tunnel_inv (run P w acts)"
  unfolding run_def
  by (induction acts arbitrary: w) (simp_all add: step_def tunnel_deliver)

lemma tunnel_started: "tunnel_inv (started p d)"
  by (simp add: tunnel_inv_def all_conns_def started_def start_def new_ProxyServer_def)

lemma connect_tunnel_mode:
  assumes "caCert (proxy w) = None" "uncaught w = None" "port_ok (snd (connect_target u))"
  shows "events (step P w (Connect u hs hb now now2)) =
           events w @
           [RequestEv \<lparr>id' = fresh w, method' = ''CONNECT'', url = ''https://'' @ template u,
                       headers = hs, body = None, timestamp = now, response = None\<rparr>]"
    and "uncaught (step P w (Connect u hs hb now now2)) = None"
    and "conn_at (step P w (Connect u hs hb now now2)) (length (conns w)) =
           Some (Tunnel
             \<lparr>c_hostname = fst (connect_target u), c_targetPort = snd (connect_target u),
              c_head = hb,
              c_request = \<lparr>id' = fresh w, method' = ''CONNECT'', url = ''https://'' @ template u,
                           headers = hs, body = None, timestamp = now, response = None\<rparr>,
              clientSocket = [], clientEnded = False, clientFailed = False,
              dial = Some (snd (connect_target u), fst (connect_target u)), connected = False,
              serverSocket = [], serverEnded = False, serverFailed = False, tls = None,
              tlsFailed = False\<rparr>)"
  using assms
  by (simp_all add: step_def deliver_def handleConnect_def handleHttpsTunnel_def next_id_def
        Let_def conn_at_def fresh_def)

lemma tunnel_connects:
  assumes "conn_at w h = Some (Tunnel c)" "uncaught w = None"
    and "dial c \<noteq> None" "\<not> connected c" "\<not> serverFailed c"
  shows "conn_at (step P w (ServerConnect h t)) h =
           Some (Tunnel (c\<lparr>clientSocket := clientSocket c @ [Wrote reply200],
                           serverSocket := serverSocket c @ [Wrote (c_head c)],
                           connected := True,
                           c_request := (c_request c)\<lparr>response :=
                             Some (established ''Connection Established (Tunnel)''
                                     (t - timestamp (c_request c)))\<rparr>\<rparr>)) \<and>
         uncaught (step P w (ServerConnect h t)) = None \<and>
         events (step P w (ServerConnect h t)) =
           events w @
           [ResponseEv ((c_request c)\<lparr>response :=
              Some (established ''Connection Established (Tunnel)''
                      (t - timestamp (c_request c)))\<rparr>)]"
proof -
  from assms(1) have "h < length (conns w)" by (simp add: conn_at_Some)
  with assms show ?thesis
    by (simp add: step_def deliver_def server_connect_def Let_def conn_at_set_conn)
qed

lemma tunnel_fails:
  assumes "conn_at w h = Some (Tunnel c)" "uncaught w = None"
    and "dial c \<noteq> None" "\<not> serverFailed c"
  shows "conn_at (step P w (ServerError h msg)) h =
           Some (Tunnel (c\<lparr>serverFailed := True, clientEnded := True\<rparr>)) \<and>
         uncaught (step P w (ServerError h msg)) = None \<and>
         events (step P w (ServerError h msg)) = events w @ [ErrorEv (id' (c_request c)) msg]"
proof -
  from assms(1) have "h < length (conns w)" by (simp add: conn_at_Some)
  with assms show ?thesis
    by (simp add: step_def deliver_def server_error_def conn_at_set_conn)
qed

lemma tunnel_relays_up:
  assumes "conn_at w h = Some (Tunnel c)" "uncaught w = None"
    and "connected c" "\<not> clientFailed c" "\<not> serverEnded c" "\<not> serverFailed c"
  shows "conn_at (step P w (ClientData h x)) h =
           Some (Tunnel (c\<lparr>serverSocket := serverSocket c @ [Piped x]\<rparr>)) \<and>
         uncaught (step P w (ClientData h x)) = None"
proof -
  from assms(1) have "h < length (conns w)" by (simp add: conn_at_Some)
  with assms show ?thesis
    by (simp add: step_def deliver_def client_data_def conn_at_set_conn)
qed

lemma tunnel_relays_down:
  assumes "conn_at w h = Some (Tunnel c)" "uncaught w = None"
    and "connected c" "\<not> serverFailed c" "\<not> clientEnded c" "\<not> clientFailed c"
  shows "conn_at (step P w (ServerData h y)) h =
           Some (Tunnel (c\<lparr>clientSocket := clientSocket c @ [Piped y]\<rparr>)) \<and>
         uncaught (step P w (ServerData h y)) = None"
proof -
  from assms(1) have "h < length (conns w)" by (simp add: conn_at_Some)
  with assms show ?thesis
    by (simp add: step_def deliver_def server_data_def conn_at_set_conn)
qed

lemma emitted_events: "events (step P w a) = events w @ es \<Longrightarrow> emitted P w a = es"
  by (simp add: emitted_def)

lemma tunnel_of_tls_write:
  assumes "conn_at w h = Some c" "tunnel_of i t0 hb t r c"
  shows "\<exists>c'. conn_at (tls_write h' x w) h = Some c' \<and> tunnel_of i t0 hb t r c'"
  using assms
  by (cases "h = h'")
     (auto simp: tls_write_def conn_at_set_conn tunnel_of_def conn_at_Some
           split: option.splits conn.splits)

lemma tunnel_of_deliver:
  assumes "conn_at w h = Some c" "tunnel_of i t0 hb t r c"
  shows "\<exists>c'. conn_at (deliver P a w) h = Some c' \<and> tunnel_of i t0 hb t r c'"
proof (cases a)
  case (Incoming m u hs now)
  with assms show ?thesis
    by (simp add: deliver_def handleRequest_def next_id_def Let_def conn_at_append)
next
  case (ReqData h' x)
  with assms show ?thesis
    by (auto simp: deliver_def clientReq_data_def conn_at_set_conn tunnel_of_def
             split: option.splits conn.splits)
next
  case (ReqEnd h')
  with assms show ?thesis
    by (auto simp: deliver_def clientReq_end_def conn_at_set_conn Let_def tunnel_of_def
             split: option.splits conn.splits sum.splits)
next
  case (ProxyRes h' sc sm hs)
  with assms show ?thesis
    by (auto simp: deliver_def proxyReq_response_def child_response_def conn_at_set_conn Let_def
                   tunnel_of_def
             split: option.splits conn.splits sum.splits)
next
  case (ProxyResData h' x)
  with assms show ?thesis
    by (auto simp: deliver_def proxyRes_data_def child_data_def conn_at_set_conn tunnel_of_def
             split: option.splits conn.splits)
next
  case (ProxyResEnd h' now)
  show ?thesis
  proof (cases "conn_at w h'")
    case None
    with ProxyResEnd assms show ?thesis by (simp add: deliver_def)
  next
    case (Some c')
    show ?thesis
    proof (cases c')
      case (Plain x)
      with Some ProxyResEnd assms show ?thesis
        by (auto simp: deliver_def proxyRes_end_def conn_at_set_conn Let_def tunnel_of_def
                 split: option.splits)
    next
      case (Tunnel x)
      with Some ProxyResEnd assms show ?thesis by (simp add: deliver_def)
    next
      case (Child x)
      with Some assms have ne: "h \<noteq> h'" by (auto simp: tunnel_of_def)
      have "\<exists>c'. conn_at (tls_write q y (set_conn h' k (emit e w))) h = Some c' \<and>
                 tunnel_of i t0 hb t r c'" for q y k e
        using assms ne by (intro tunnel_of_tls_write) (simp_all add: conn_at_set_conn)
      with Some Child ProxyResEnd assms show ?thesis
        by (simp add: deliver_def child_end_def Let_def)
    qed
  qed
next
  case (ProxyReqError h' msg)
  with assms show ?thesis
    by (auto simp: deliver_def proxyReq_error_def child_error_def conn_at_set_conn Let_def
                   tunnel_of_def
             split: option.splits conn.splits sum.splits)
next
  case (Connect u hs hb' now now2)
  from assms have "h < length (conns w)" by (simp add: conn_at_Some)
  with Connect assms show ?thesis
    by (auto simp: deliver_def handleConnect_def handleHttpsWithMitm_def handleHttpsTunnel_def
                   next_id_def Let_def conn_at_def nth_append
             split: option.splits sum.splits prod.splits)
next
  case (ServerConnect h' now)
  with assms show ?thesis
    by (auto simp: deliver_def server_connect_def conn_at_set_conn Let_def tunnel_of_def
             split: option.splits conn.splits)
next
  case (ServerError h' msg)
  with assms show ?thesis
    by (auto simp: deliver_def server_error_def conn_at_set_conn tunnel_of_def
             split: option.splits conn.splits)
next
  case (ClientError h')
  with assms show ?thesis
    by (auto simp: deliver_def client_error_def conn_at_set_conn tunnel_of_def
             split: option.splits conn.splits)
next
  case (ClientData h' x)
  with assms show ?thesis
    by (auto simp: deliver_def client_data_def conn_at_set_conn tunnel_of_def
             split: option.splits conn.splits)
next
  case (ServerData h' x)
  with assms show ?thesis
    by (auto simp: deliver_def server_data_def conn_at_set_conn tunnel_of_def
             split: option.splits conn.splits)
next
  case (TlsData h' x now)
  from assms have "h < length (conns w)" by (simp add: conn_at_Some)
  with TlsData assms show ?thesis
    by (auto simp: deliver_def handleHttpsRequest_def next_id_def Let_def conn_at_def nth_append
             split: option.splits conn.splits)
next
  case (TlsError h')
  with assms show ?thesis
    by (auto simp: deliver_def tls_error_def conn_at_set_conn tunnel_of_def
             split: option.splits conn.splits)
qed

lemma tunnel_of_run:
  assumes "conn_at w h = Some c" "tunnel_of i t0 hb t r c"
  shows "\<exists>c'. conn_at (run P w acts) h = Some c' \<and> tunnel_of i t0 hb t r c'"
  using assms
proof (induction acts arbitrary: w c)
  case Nil
  then show ?case by (simp add: run_def)
next
  case (Cons a acts)
  have "\<exists>c1. conn_at (step P w a) h = Some c1 \<and> tunnel_of i t0 hb t r c1"
    using Cons.prems tunnel_of_deliver [OF Cons.prems, where P = P and a = a]
    by (simp add: step_def)
  then obtain c1 where "conn_at (step P w a) h = Some c1" "tunnel_of i t0 hb t r c1"
    by blast
  from Cons.IH [OF this] show ?case by (simp add: run_def)
qed

lemma run_append: "run P (run P w xs) ys = run P w (xs @ ys)"
  by (simp add: run_def)

lemma run_step: "run P (step P w a) ys = run P w (a # ys)"
  by (simp add: run_def)

text \<open>
  C3, as the code has it. Let a CONNECT whose target has a port that \<open>net.connect\<close> takes
  reach a started proxy (\<open>start\<close> selects tunnel mode) that is running. The \<open>request\<close> event
  of the exchange is emitted at once, and the connection is handed to the tunnel with the
  dial of the target under way and nothing written to either socket. From then on, whatever
  else happens: as long as the dial has not succeeded neither socket has been sent anything;
  once it has, the client has been sent the one reply \<open>200 Connection Established\<close> first
  and relayed bytes after it, and the upstream the head that came with the CONNECT first
  and relayed bytes after it. The success of the dial is what writes the reply and then the
  head, and emits the \<open>response\<close> event. A failure of the upstream socket emits an \<open>error\<close>
  event with the id of the exchange and the message, writes nothing and ends the client
  socket; and after a failure that came before the dial succeeded, the client is never sent
  anything.
\<close>

theorem connect_reply_follows_dial:
  assumes "uncaught (run P (started p d) acts) = None" "port_ok (snd (connect_target u))"
  shows
    "let w = run P (started p d) acts;
         h = length (conns w);
         w1 = step P w (Connect u hs hb now now2)
     in events w1 =
          events w @
          [RequestEv \<lparr>id' = fresh w, method' = ''CONNECT'', url = ''https://'' @ template u,
                      headers = hs, body = None, timestamp = now, response = None\<rparr>] \<and>
        uncaught w1 = None \<and>
        (\<exists>c. conn_at w1 h = Some (Tunnel c) \<and> \<not> connected c \<and> silent c) \<and>
        (\<forall>acts'. \<exists>c.
           conn_at (run P w1 acts') h = Some (Tunnel c) \<and>
           dial c = Some (snd (connect_target u), fst (connect_target u)) \<and>
           (if connected c then answered hb c else silent c) \<and>
           (uncaught (run P w1 acts') = None \<and> \<not> connected c \<and> \<not> serverFailed c \<longrightarrow>
              (\<forall>t. \<exists>c'.
                 conn_at (step P (run P w1 acts') (ServerConnect h t)) h = Some (Tunnel c') \<and>
                 connected c' \<and> clientSocket c' = [Wrote reply200] \<and>
                 serverSocket c' = [Wrote hb] \<and>
                 emitted P (run P w1 acts') (ServerConnect h t) =
                   [ResponseEv ((c_request c)\<lparr>response :=
                      Some (established ''Connection Established (Tunnel)'' (t - now))\<rparr>)] \<and>
                 id' (c_request c) = fresh w)) \<and>
           (uncaught (run P w1 acts') = None \<and> \<not> serverFailed c \<longrightarrow>
              (\<forall>msg. \<exists>c'.
                 conn_at (step P (run P w1 acts') (ServerError h msg)) h = Some (Tunnel c') \<and>
                 clientEnded c' \<and> clientSocket c' = clientSocket c \<and>
                 emitted P (run P w1 acts') (ServerError h msg) = [ErrorEv (fresh w) msg])) \<and>
           (serverFailed c \<and> \<not> connected c \<longrightarrow>
              (\<forall>acts''. \<exists>c'.
                 conn_at (run P (run P w1 acts') acts'') h = Some (Tunnel c') \<and>
                 \<not> connected c' \<and> clientSocket c' = [])))"
proof -
  let ?w = "run P (started p d) acts"
  let ?h = "length (conns ?w)"
  let ?w1 = "step P ?w (Connect u hs hb now now2)"
  let ?t = "(snd (connect_target u), fst (connect_target u))"
  let ?rq = "\<lparr>id' = fresh ?w, method' = ''CONNECT'', url = ''https://'' @ template u,
              headers = hs, body = None, timestamp = now, response = None\<rparr>"
  let ?c0 = "\<lparr>c_hostname = fst (connect_target u), c_targetPort = snd (connect_target u),
              c_head = hb, c_request = ?rq,
              clientSocket = [], clientEnded = False, clientFailed = False,
              dial = Some ?t, connected = False,
              serverSocket = [], serverEnded = False, serverFailed = False, tls = None,
              tlsFailed = False\<rparr>"
  have inv: "tunnel_inv ?w" by (rule tunnel_run [OF tunnel_started])
  then have ca: "caCert (proxy ?w) = None" by (simp add: tunnel_inv_def)
  have ev: "events ?w1 = events ?w @ [RequestEv ?rq]"
    and un: "uncaught ?w1 = None"
    and at0: "conn_at ?w1 ?h = Some (Tunnel ?c0)"
    by (rule connect_tunnel_mode [OF ca assms])+
  have k0: "tunnel_of (fresh ?w) now hb ?t False (Tunnel ?c0)"
    by (simp add: tunnel_of_def)
  have inv1: "tunnel_inv (run P ?w1 xs)" for xs
  proof -
    have "run P ?w1 xs = run P (started p d) (acts @ Connect u hs hb now now2 # xs)"
      by (simp add: run_def)
    then show ?thesis by (simp only: tunnel_run [OF tunnel_started])
  qed
  have shape: "if connected c then answered hb c else silent c"
    if "conn_at (run P ?w1 xs) ?h = Some (Tunnel c)" "c_head c = hb" for xs c
  proof -
    from inv1 [of xs] that(1) have "tunnel_ok (Tunnel c)"
      by (auto simp: tunnel_inv_def dest: ac_at)
    with that(2) show ?thesis
      by (auto simp: tunnel_ok_def answered_def silent_def split: if_splits)
  qed
  have first: "\<exists>c. conn_at ?w1 ?h = Some (Tunnel c) \<and> \<not> connected c \<and> silent c"
    using at0 by (simp add: silent_def)
  have later: "\<exists>c.
      conn_at (run P ?w1 xs) ?h = Some (Tunnel c) \<and> dial c = Some ?t \<and>
      (if connected c then answered hb c else silent c) \<and>
      (uncaught (run P ?w1 xs) = None \<and> \<not> connected c \<and> \<not> serverFailed c \<longrightarrow>
         (\<forall>t. \<exists>c'.
            conn_at (step P (run P ?w1 xs) (ServerConnect ?h t)) ?h = Some (Tunnel c') \<and>
            connected c' \<and> clientSocket c' = [Wrote reply200] \<and>
            serverSocket c' = [Wrote hb] \<and>
            emitted P (run P ?w1 xs) (ServerConnect ?h t) =
              [ResponseEv ((c_request c)\<lparr>response :=
                 Some (established ''Connection Established (Tunnel)'' (t - now))\<rparr>)] \<and>
            id' (c_request c) = fresh ?w)) \<and>
      (uncaught (run P ?w1 xs) = None \<and> \<not> serverFailed c \<longrightarrow>
         (\<forall>msg. \<exists>c'.
            conn_at (step P (run P ?w1 xs) (ServerError ?h msg)) ?h = Some (Tunnel c') \<and>
            clientEnded c' \<and> clientSocket c' = clientSocket c \<and>
            emitted P (run P ?w1 xs) (ServerError ?h msg) = [ErrorEv (fresh ?w) msg])) \<and>
      (serverFailed c \<and> \<not> connected c \<longrightarrow>
         (\<forall>ys. \<exists>c'.
            conn_at (run P (run P ?w1 xs) ys) ?h = Some (Tunnel c') \<and>
            \<not> connected c' \<and> clientSocket c' = []))" for xs
  proof -
    let ?v = "run P ?w1 xs"
    from tunnel_of_run [OF at0 k0, where P = P and acts = xs]
    obtain k where k: "conn_at ?v ?h = Some k" "tunnel_of (fresh ?w) now hb ?t False k"
      by blast
    then obtain c where c: "k = Tunnel c" by (cases k) (auto simp: tunnel_of_def)
    with k have at: "conn_at ?v ?h = Some (Tunnel c)"
      and f: "id' (c_request c) = fresh ?w" "timestamp (c_request c) = now" "c_head c = hb"
        "dial c = Some ?t"
      by (simp_all add: tunnel_of_def)
    note sh = shape [OF at f(3)]
    have ok: "\<exists>c'. conn_at (step P ?v (ServerConnect ?h t)) ?h = Some (Tunnel c') \<and>
        connected c' \<and> clientSocket c' = [Wrote reply200] \<and> serverSocket c' = [Wrote hb] \<and>
        emitted P ?v (ServerConnect ?h t) =
          [ResponseEv ((c_request c)\<lparr>response :=
             Some (established ''Connection Established (Tunnel)'' (t - now))\<rparr>)] \<and>
        id' (c_request c) = fresh ?w"
      if "uncaught ?v = None" "\<not> connected c" "\<not> serverFailed c" for t
    proof -
      from f(4) have d: "dial c \<noteq> None" by simp
      from sh that(2) have s: "clientSocket c = []" "serverSocket c = []"
        by (simp_all add: silent_def)
      from tunnel_connects [OF at that(1) d that(2,3), where P = P and t = t] s f
      show ?thesis by (simp add: emitted_events)
    qed
    have bad: "\<exists>c'. conn_at (step P ?v (ServerError ?h msg)) ?h = Some (Tunnel c') \<and>
        clientEnded c' \<and> clientSocket c' = clientSocket c \<and>
        emitted P ?v (ServerError ?h msg) = [ErrorEv (fresh ?w) msg]"
      if "uncaught ?v = None" "\<not> serverFailed c" for msg
    proof -
      from f(4) have d: "dial c \<noteq> None" by simp
      from tunnel_fails [OF at that(1) d that(2), where P = P and msg = msg] f
      show ?thesis by (simp add: emitted_events)
    qed
    have never: "\<exists>c'. conn_at (run P ?v ys) ?h = Some (Tunnel c') \<and>
        \<not> connected c' \<and> clientSocket c' = []"
      if "serverFailed c" "\<not> connected c" for ys
    proof -
      from f that have "tunnel_of (fresh ?w) now hb ?t True (Tunnel c)"
        by (simp add: tunnel_of_def)
      from tunnel_of_run [OF at this, where P = P and acts = ys]
      obtain k' where k': "conn_at (run P ?v ys) ?h = Some k'"
          "tunnel_of (fresh ?w) now hb ?t True k'"
        by blast
      then obtain c' where c': "k' = Tunnel c'" by (cases k') (auto simp: tunnel_of_def)
      with k' have at': "conn_at (run P ?w1 (xs @ ys)) ?h = Some (Tunnel c')"
        and n: "\<not> connected c'" and hd': "c_head c' = hb"
        by (simp_all add: tunnel_of_def run_append)
      from shape [OF at' hd'] n have "clientSocket c' = []" by (simp add: silent_def)
      with k' c' n show ?thesis by simp
    qed
    from at f(4) sh ok bad never show ?thesis by blast
  qed
  from ev un first later show ?thesis unfolding Let_def by blast
qed

text \<open>
  A CONNECT to \<open>example.com:443\<close> on a started proxy. When the dial succeeds and bytes are
  relayed, the connection has been answered: the reply, then \<open>pong\<close> to the client; the
  head \<open>hello\<close>, then \<open>ping\<close> to the upstream. When the dial is refused, the connection
  stays silent.
\<close>

theorem connect_reply_follows_dial_witness:
  "(\<exists>c. conn_at (run sample_platform (started 8080 empty_disk) tunnel_session) 0 =
           Some (Tunnel c) \<and>
         connected c \<and> answered ''hello'' c \<and> dial c = Some (Num 443, ''example.com'')) \<and>
   (\<exists>c. conn_at (run sample_platform (started 8080 empty_disk) refused_session) 0 =
           Some (Tunnel c) \<and>
         \<not> connected c \<and> silent c)"
proof -
  let ?P = sample_platform
  let ?s = "started 8080 empty_disk"
  let ?a = "Connect (Some ''example.com:443'') [] ''hello'' 1000 1000"
  have u: "uncaught (run ?P ?s []) = None" by (simp add: run_def started_def)
  have t: "connect_target (Some ''example.com:443'') = (''example.com'', Num 443)"
    by code_simp
  then have q: "port_ok (snd (connect_target (Some ''example.com:443'')))"
    by (simp add: port_ok_def)
  have h: "length (conns (run ?P ?s [])) = 0" by (simp add: run_def started_def)
  note main = connect_reply_follows_dial [OF u q, where hs = "[]" and hb = "''hello''"
      and now = 1000 and ?now2.0 = 1000, unfolded Let_def h, THEN conjunct2, THEN conjunct2,
      THEN conjunct2]
  have r1: "run ?P (step ?P (run ?P ?s []) ?a)
              [ServerConnect 0 1040, ClientData 0 ''ping'', ServerData 0 ''pong''] =
            run ?P ?s tunnel_session"
    by (simp add: run_def tunnel_session_def)
  have r2: "run ?P (step ?P (run ?P ?s []) ?a) [ServerError 0 ''connect ECONNREFUSED''] =
            run ?P ?s refused_session"
    by (simp add: run_def refused_session_def)
  from main [THEN spec, of "[ServerConnect 0 1040, ClientData 0 ''ping'', ServerData 0 ''pong'']"]
  obtain c1 where c1: "conn_at (run ?P ?s tunnel_session) 0 = Some (Tunnel c1)"
      "dial c1 = Some (Num 443, ''example.com'')"
      "if connected c1 then answered ''hello'' c1 else silent c1"
    unfolding r1 t by auto
  have "case conn_at (run ?P ?s tunnel_session) 0 of
          Some (Tunnel c) \<Rightarrow> connected c | _ \<Rightarrow> False"
    by code_simp
  with c1 have a: "connected c1 \<and> answered ''hello'' c1" by simp
  from main [THEN spec, of "[ServerError 0 ''connect ECONNREFUSED'']"]
  obtain c2 where c2: "conn_at (run ?P ?s refused_session) 0 = Some (Tunnel c2)"
      "if connected c2 then answered ''hello'' c2 else silent c2"
    unfolding r2 t by auto
  have "case conn_at (run ?P ?s refused_session) 0 of
          Some (Tunnel c) \<Rightarrow> \<not> connected c | _ \<Rightarrow> False"
    by code_simp
  with c2 have b: "\<not> connected c2 \<and> silent c2" by simp
  from c1 a c2 b show ?thesis by blast
qed

text \<open>
  The claim as stated fails when the dial is refused: the CONNECT is never answered with
  200. The client socket is given nothing and is ended, and an \<open>error\<close> event is emitted.
\<close>

theorem refused_dial_gets_no_reply:
  "(case conn_at (run sample_platform (started 8080 empty_disk) refused_session) 0 of
      Some (Tunnel c) \<Rightarrow> clientSocket c = [] \<and> clientEnded c \<and> \<not> connected c \<and> serverFailed c
    | _ \<Rightarrow> False) \<and>
   events (run sample_platform (started 8080 empty_disk) refused_session) ! 1 =
     ErrorEv ''req_1'' ''connect ECONNREFUSED''"
  by code_simp

section \<open>The target a CONNECT dials\<close>

text \<open>
  In tunnel mode, a CONNECT whose target has a port that \<open>net.connect\<close> takes is dialled at
  the host that is the target's text before the first colon, and at the port that is 443
  when the target has no port text or the port text parses to NaN or to zero, and the
  number \<open>parseInt\<close> reads from the port text otherwise.
\<close>

theorem connect_dials_target:
  assumes "caCert (proxy w) = None" "uncaught w = None"
    and "port_ok (target_port (or_else u []))"
  shows "\<exists>c. conn_at (step P w (Connect u hs hb now now2)) (length (conns w)) = Some (Tunnel c) \<and>
             dial c = Some (target_port (or_else u []), host_text (or_else u [])) \<and>
             uncaught (step P w (Connect u hs hb now now2)) = None"
proof -
  have t: "connect_target u = (host_text (or_else u []), target_port (or_else u []))"
    by (rule connect_target_rule)
  with assms(3) have "port_ok (snd (connect_target u))" by simp
  from connect_tunnel_mode(2,3) [OF assms(1,2) this, where P = P and hs = hs and hb = hb
      and now = now and ?now2.0 = now2]
  show ?thesis by (simp add: t)
qed

text \<open>
  On a started proxy, \<open>example.com:8443\<close> is dialled at port 8443 and \<open>example.com\<close> at
  port 443.
\<close>

theorem connect_dials_target_witness:
  "(\<exists>c. conn_at (step sample_platform (started 8080 empty_disk)
                   (Connect (Some ''example.com:8443'') [] [] 1000 1000)) 0 = Some (Tunnel c) \<and>
         dial c = Some (Num 8443, ''example.com'')) \<and>
   (\<exists>c. conn_at (step sample_platform (started 8080 empty_disk)
                   (Connect (Some ''example.com'') [] [] 1000 1000)) 0 = Some (Tunnel c) \<and>
         dial c = Some (Num 443, ''example.com''))"
proof -
  let ?s = "started 8080 empty_disk"
  have a: "caCert (proxy ?s) = None" "uncaught ?s = None" "length (conns ?s) = 0"
    by (simp_all add: started_def start_def)
  have t1: "target_port (or_else (Some ''example.com:8443'') []) = Num 8443"
    "host_text (or_else (Some ''example.com:8443'') []) = ''example.com''"
    by code_simp+
  have t2: "target_port (or_else (Some ''example.com'') []) = Num 443"
    "host_text (or_else (Some ''example.com'') []) = ''example.com''"
    by code_simp+
  have p1: "port_ok (target_port (or_else (Some ''example.com:8443'') []))"
    by (simp add: t1 port_ok_def)
  have p2: "port_ok (target_port (or_else (Some ''example.com'') []))"
    by (simp add: t2 port_ok_def)
  from connect_dials_target [OF a(1,2) p1, where P = sample_platform and hs = "[]" and hb = "[]"
      and now = 1000 and ?now2.0 = 1000]
    connect_dials_target [OF a(1,2) p2, where P = sample_platform and hs = "[]" and hb = "[]"
      and now = 1000 and ?now2.0 = 1000]
  show ?thesis unfolding a(3) t1 t2 by blast
qed

text \<open>
  C10 fails for a port that \<open>net.connect\<close> does not take. The port text \<open>-5\<close> does not
  parse to a positive integer, and the port text \<open>70000\<close> does: for the first the claim
  has the proxy dial port 443, for the second the parsed port. In the code
  \<open>parseInt(port) || 443\<close> is \<open>-5\<close> and \<open>70000\<close>, \<open>net.connect\<close> throws
  \<open>ERR_SOCKET_BAD_PORT\<close> for both, and nothing catches it: after the \<open>request\<close> event
  nothing is dialled, no \<open>error\<close> event is emitted, the client socket is neither answered
  nor ended, and the process is left with an uncaught exception.
\<close>

theorem connect_port_out_of_range_throws:
  "(let w = step sample_platform (started 8080 empty_disk)
              (Connect (Some ''example.com:-5'') [] ''hello'' 1000 1000)
    in connect_target (Some ''example.com:-5'') = (''example.com'', Num (- 5)) \<and>
       uncaught w = Some ''ERR_SOCKET_BAD_PORT'' \<and>
       (case conn_at w 0 of
          Some (Tunnel c) \<Rightarrow> dial c = None \<and> clientSocket c = [] \<and> \<not> clientEnded c
        | _ \<Rightarrow> False) \<and>
       map reply_id (events w) = [None]) \<and>
   (let w = step sample_platform (started 8080 empty_disk)
              (Connect (Some ''example.com:70000'') [] ''hello'' 1000 1000)
    in connect_target (Some ''example.com:70000'') = (''example.com'', Num 70000) \<and>
       uncaught w = Some ''ERR_SOCKET_BAD_PORT'' \<and>
       (case conn_at w 0 of
          Some (Tunnel c) \<Rightarrow> dial c = None \<and> clientSocket c = [] \<and> \<not> clientEnded c
        | _ \<Rightarrow> False) \<and>
       map reply_id (events w) = [None])"
  by code_simp

section \<open>The fallback from MITM to the tunnel\<close>

lemma connect_fallback_same:
  assumes "caCert (proxy w) \<noteq> None" "uncaught w = None"
    and "fst (generateHostCert (shell_of P) (homedir P) (fst (connect_target u)) (fs w)) = Inl e"
  shows "conns (step P w (Connect u hs hb now now2)) =
           conns (step P (w\<lparr>proxy := (proxy w)\<lparr>caCert := None\<rparr>\<rparr>) (Connect u hs hb now now2))"
    and "events (step P w (Connect u hs hb now now2)) =
           events (step P (w\<lparr>proxy := (proxy w)\<lparr>caCert := None\<rparr>\<rparr>) (Connect u hs hb now now2))"
    and "uncaught (step P w (Connect u hs hb now now2)) =
           uncaught (step P (w\<lparr>proxy := (proxy w)\<lparr>caCert := None\<rparr>\<rparr>) (Connect u hs hb now now2))"
proof -
  obtain d where d: "generateHostCert (shell_of P) (homedir P) (fst (connect_target u)) (fs w) = (Inl e, d)"
    using assms(3) by (cases "generateHostCert (shell_of P) (homedir P) (fst (connect_target u)) (fs w)") auto
  show "conns (step P w (Connect u hs hb now now2)) =
           conns (step P (w\<lparr>proxy := (proxy w)\<lparr>caCert := None\<rparr>\<rparr>) (Connect u hs hb now now2))"
    and "events (step P w (Connect u hs hb now now2)) =
           events (step P (w\<lparr>proxy := (proxy w)\<lparr>caCert := None\<rparr>\<rparr>) (Connect u hs hb now now2))"
    and "uncaught (step P w (Connect u hs hb now now2)) =
           uncaught (step P (w\<lparr>proxy := (proxy w)\<lparr>caCert := None\<rparr>\<rparr>) (Connect u hs hb now now2))"
    using assms(1,2) d
    by (simp_all add: step_def deliver_def handleConnect_def handleHttpsWithMitm_def
          handleHttpsTunnel_def next_id_def Let_def)
qed

lemma connect_fallback:
  assumes "caCert (proxy w) \<noteq> None" "uncaught w = None"
    and "fst (generateHostCert (shell_of P) (homedir P) (fst (connect_target u)) (fs w)) = Inl e"
    and "port_ok (snd (connect_target u))"
  shows "\<exists>c. conn_at (step P w (Connect u hs hb now now2)) (length (conns w)) = Some (Tunnel c) \<and>
             uncaught (step P w (Connect u hs hb now now2)) = None \<and>
             dial c = Some (snd (connect_target u), fst (connect_target u)) \<and>
             tls c = None \<and> clientSocket c = [] \<and> serverSocket c = [] \<and> c_head c = hb \<and>
             \<not> connected c \<and> \<not> serverFailed c \<and> \<not> clientFailed c \<and>
             \<not> clientEnded c \<and> \<not> serverEnded c \<and>
             timestamp (c_request c) = now \<and> response (c_request c) = None"
proof -
  obtain d where d: "generateHostCert (shell_of P) (homedir P) (fst (connect_target u)) (fs w) = (Inl e, d)"
    using assms(3) by (cases "generateHostCert (shell_of P) (homedir P) (fst (connect_target u)) (fs w)") auto
  show ?thesis
    using assms(1,2,4) d
    by (simp add: step_def deliver_def handleConnect_def handleHttpsWithMitm_def
          handleHttpsTunnel_def next_id_def Let_def conn_at_def)
qed

text \<open>
  C5. Let MITM be on and let \<open>generateHostCert\<close> fail for the host of a CONNECT. Then the
  connection is handled as in tunnel mode: for every target, the step leaves the
  connections, the events and the process as the same CONNECT leaves them on a proxy with
  MITM off. For a target whose port \<open>net.connect\<close> takes, the upstream is dialled at the
  target's host and port, no TLS session is set up, and once the dial succeeds the client
  is sent the reply 200, the upstream is sent the head, bytes of the client reach the
  upstream and bytes of the upstream reach the client, neither socket is ended, and the
  exchange is completed as a tunnel.
\<close>

theorem mitm_fallback:
  assumes "caCert (proxy w) \<noteq> None" "uncaught w = None"
    and "fst (generateHostCert (shell_of P) (homedir P) (fst (connect_target u)) (fs w)) = Inl e"
  shows "conns (step P w (Connect u hs hb now now2)) =
           conns (step P (w\<lparr>proxy := (proxy w)\<lparr>caCert := None\<rparr>\<rparr>) (Connect u hs hb now now2)) \<and>
         events (step P w (Connect u hs hb now now2)) =
           events (step P (w\<lparr>proxy := (proxy w)\<lparr>caCert := None\<rparr>\<rparr>) (Connect u hs hb now now2)) \<and>
         uncaught (step P w (Connect u hs hb now now2)) =
           uncaught (step P (w\<lparr>proxy := (proxy w)\<lparr>caCert := None\<rparr>\<rparr>) (Connect u hs hb now now2)) \<and>
         (port_ok (snd (connect_target u)) \<longrightarrow>
            (\<exists>c. conn_at
                   (run P w [Connect u hs hb now now2, ServerConnect (length (conns w)) t,
                             ClientData (length (conns w)) x, ServerData (length (conns w)) y])
                   (length (conns w)) = Some (Tunnel c) \<and>
                 dial c = Some (snd (connect_target u), fst (connect_target u)) \<and> tls c = None \<and>
                 clientSocket c = [Wrote reply200, Piped y] \<and>
                 serverSocket c = [Wrote hb, Piped x] \<and>
                 \<not> clientEnded c \<and> \<not> serverEnded c \<and>
                 response (c_request c) =
                   Some (established ''Connection Established (Tunnel)'' (t - now))))"
proof (intro conjI impI)
  show "conns (step P w (Connect u hs hb now now2)) =
          conns (step P (w\<lparr>proxy := (proxy w)\<lparr>caCert := None\<rparr>\<rparr>) (Connect u hs hb now now2))"
    by (rule connect_fallback_same [OF assms])
  show "events (step P w (Connect u hs hb now now2)) =
          events (step P (w\<lparr>proxy := (proxy w)\<lparr>caCert := None\<rparr>\<rparr>) (Connect u hs hb now now2))"
    by (rule connect_fallback_same [OF assms])
  show "uncaught (step P w (Connect u hs hb now now2)) =
          uncaught (step P (w\<lparr>proxy := (proxy w)\<lparr>caCert := None\<rparr>\<rparr>) (Connect u hs hb now now2))"
    by (rule connect_fallback_same [OF assms])
next
  assume ok: "port_ok (snd (connect_target u))"
  let ?h = "length (conns w)"
  let ?w1 = "step P w (Connect u hs hb now now2)"
  let ?w2 = "step P ?w1 (ServerConnect ?h t)"
  let ?w3 = "step P ?w2 (ClientData ?h x)"
  let ?w4 = "step P ?w3 (ServerData ?h y)"
  from connect_fallback [OF assms ok, where hs = hs and hb = hb and now = now and ?now2.0 = now2]
  obtain c1 where c1: "conn_at ?w1 ?h = Some (Tunnel c1)" "uncaught ?w1 = None"
      "dial c1 = Some (snd (connect_target u), fst (connect_target u))"
      "tls c1 = None" "clientSocket c1 = []" "serverSocket c1 = []" "c_head c1 = hb"
      "\<not> connected c1" "\<not> serverFailed c1" "\<not> clientFailed c1"
      "\<not> clientEnded c1" "\<not> serverEnded c1"
      "timestamp (c_request c1) = now" "response (c_request c1) = None"
    by blast
  define c2 where "c2 = c1\<lparr>clientSocket := clientSocket c1 @ [Wrote reply200],
                           serverSocket := serverSocket c1 @ [Wrote (c_head c1)],
                           connected := True,
                           c_request := (c_request c1)\<lparr>response :=
                             Some (established ''Connection Established (Tunnel)''
                                     (t - timestamp (c_request c1)))\<rparr>\<rparr>"
  have w2: "conn_at ?w2 ?h = Some (Tunnel c2)" "uncaught ?w2 = None"
    using tunnel_connects [OF c1(1,2), where t = t and P = P] c1 by (simp_all add: c2_def)
  have w3: "conn_at ?w3 ?h = Some (Tunnel (c2\<lparr>serverSocket := serverSocket c2 @ [Piped x]\<rparr>))"
      "uncaught ?w3 = None"
    using tunnel_relays_up [OF w2, where x = x and P = P] c1 by (simp_all add: c2_def)
  have w4: "conn_at ?w4 ?h =
      Some (Tunnel (c2\<lparr>serverSocket := serverSocket c2 @ [Piped x],
                       clientSocket := clientSocket c2 @ [Piped y]\<rparr>))"
    using tunnel_relays_down [OF w3, where y = y and P = P] c1 by (simp add: c2_def)
  have "run P w [Connect u hs hb now now2, ServerConnect ?h t, ClientData ?h x, ServerData ?h y] = ?w4"
    by (simp add: run_def)
  with w4 c1
  show "\<exists>c. conn_at
               (run P w [Connect u hs hb now now2, ServerConnect ?h t,
                         ClientData ?h x, ServerData ?h y])
               ?h = Some (Tunnel c) \<and>
             dial c = Some (snd (connect_target u), fst (connect_target u)) \<and> tls c = None \<and>
             clientSocket c = [Wrote reply200, Piped y] \<and>
             serverSocket c = [Wrote hb, Piped x] \<and>
             \<not> clientEnded c \<and> \<not> serverEnded c \<and>
             response (c_request c) =
               Some (established ''Connection Established (Tunnel)'' (t - now))"
    by (simp add: c2_def)
qed

text \<open>
  MITM on, \<open>openssl\<close> missing: the CONNECT to \<open>example.com:443\<close> becomes a working tunnel.
\<close>

theorem mitm_fallback_witness:
  "\<exists>c. conn_at (run sample_platform (boot (Some (''k'', ''c'')) empty_disk) tunnel_session) 0 =
           Some (Tunnel c) \<and>
         dial c = Some (Num 443, ''example.com'') \<and> tls c = None \<and>
         clientSocket c = [Wrote reply200, Piped ''pong''] \<and>
         serverSocket c = [Wrote ''hello'', Piped ''ping''] \<and>
         \<not> clientEnded c \<and> \<not> serverEnded c \<and>
         response (c_request c) = Some (established ''Connection Established (Tunnel)'' 40)"
proof -
  let ?w = "boot (Some (''k'', ''c'')) empty_disk"
  have a: "caCert (proxy ?w) \<noteq> None" "uncaught ?w = None"
    by (simp_all add: boot_def)
  have b: "fst (generateHostCert (shell_of sample_platform) (homedir sample_platform)
              (fst (connect_target (Some ''example.com:443''))) (fs ?w))
           = Inl ''openssl: not found''"
    by code_simp
  have c: "connect_target (Some ''example.com:443'') = (''example.com'', Num 443)"
    by code_simp
  have d: "length (conns ?w) = 0"
    by (simp add: boot_def)
  have e: "port_ok (snd (connect_target (Some ''example.com:443'')))"
    by (simp add: c port_ok_def)
  from mitm_fallback [OF a b, where hs = "[]" and hb = "''hello''" and now = 1000
      and ?now2.0 = 1000 and t = 1040 and x = "''ping''" and y = "''pong''"] e
  show ?thesis
    by (simp add: c d tunnel_session_def)
qed

section \<open>Upstream failures of plain HTTP\<close>

text \<open>
  A failure before the head: when the upstream request fails before the head of a response
  has arrived (the connection could not be made), the proxy emits one
  \<open>error\<close> event with the id of the exchange and the message, answers 502 with the body
  \<open>Proxy Error\<close>, does not throw, and the connection is settled: its exchange never gets a
  response and nothing more is emitted for it.
\<close>

theorem upstream_failure_before_head:
  assumes "conn_at (run P (boot ca d) acts) h = Some (Plain c)" "h_stage c = Forwarding"
    and "uncaught (run P (boot ca d) acts) = None"
  shows "\<exists>r c'. events (step P (run P (boot ca d) acts) (ProxyReqError h msg)) =
                   events (run P (boot ca d) acts) @ [ErrorEv (h_id c) msg] \<and>
                 uncaught (step P (run P (boot ca d) acts) (ProxyReqError h msg)) = None \<and>
                 (\<forall>more. conn_at (run P (step P (run P (boot ca d) acts) (ProxyReqError h msg)) more) h =
                           Some (Plain c')) \<and>
                 statusCode (clientRes c') = Some 502 \<and>
                 written (clientRes c') = [''Proxy Error''] \<and> finished (clientRes c') \<and>
                 h_request c' = Some r \<and> id' r = h_id c \<and> response r = None"
proof -
  let ?w = "run P (boot ca d) acts"
  have "unread (Plain c)"
    using unread_run [OF unread_boot] assms(1) by (rule ac_at)
  with assms(2) obtain r where r: "clientRes c = new_ServerResponse" "h_request c = Some r"
      "response r = None" "id' r = h_id c"
    by (auto simp: unread_def)
  define c' where "c' = c\<lparr>h_stage := Failed,
      clientRes := end_with ''Proxy Error''
         (new_ServerResponse\<lparr>headersSent := True, statusCode := Some 502, head_headers := []\<rparr>)\<rparr>"
  have st: "step P ?w (ProxyReqError h msg) =
      set_conn h (Plain c') (emit (ErrorEv (h_id c) msg) ?w)"
    using assms r(1)
    by (simp add: step_def deliver_def proxyReq_error_def Let_def writeHead_def
                  new_ServerResponse_def c'_def)
  have at: "conn_at (step P ?w (ProxyReqError h msg)) h = Some (Plain c')"
    using assms(1) by (simp add: st conn_at_set_conn conn_at_Some)
  have "conn_at (run P (step P ?w (ProxyReqError h msg)) more) h = Some (Plain c')" for more
    using at by (rule settled_run) (simp add: c'_def)
  moreover have "events (step P ?w (ProxyReqError h msg)) = events ?w @ [ErrorEv (h_id c) msg]"
    "uncaught (step P ?w (ProxyReqError h msg)) = None"
    using assms(3) by (simp_all add: st)
  ultimately show ?thesis
    using r
    by (intro exI [of _ r] exI [of _ c'])
       (simp add: c'_def end_with_def new_ServerResponse_def)
qed

text \<open>
  A forwarded request whose upstream connection is refused.
\<close>

theorem upstream_failure_before_head_witness:
  "\<exists>c r c'. conn_at (run sample_platform (boot None empty_disk) forwarding_session) 0 = Some (Plain c) \<and>
      events (step sample_platform (run sample_platform (boot None empty_disk) forwarding_session)
                (ProxyReqError 0 ''connect ECONNREFUSED'')) =
        events (run sample_platform (boot None empty_disk) forwarding_session) @
          [ErrorEv (h_id c) ''connect ECONNREFUSED''] \<and>
      statusCode (clientRes c') = Some 502 \<and> written (clientRes c') = [''Proxy Error''] \<and>
      finished (clientRes c') \<and> h_request c' = Some r \<and> response r = None \<and>
      (\<forall>more. conn_at (run sample_platform
                 (step sample_platform (run sample_platform (boot None empty_disk) forwarding_session)
                    (ProxyReqError 0 ''connect ECONNREFUSED'')) more) 0 = Some (Plain c'))"
proof -
  let ?w = "run sample_platform (boot None empty_disk) forwarding_session"
  have "case conn_at ?w 0 of Some (Plain c) \<Rightarrow> h_stage c = Forwarding | _ \<Rightarrow> False"
    by code_simp
  then obtain c where c: "conn_at ?w 0 = Some (Plain c)" "h_stage c = Forwarding"
    by (auto split: option.splits conn.splits)
  have u: "uncaught ?w = None" by code_simp
  from upstream_failure_before_head [OF c u, where msg = "''connect ECONNREFUSED''"] c(1)
  show ?thesis by blast
qed

text \<open>
  C4 fails when the transfer fails after the head of the response has been passed to the
  client. The upstream answers 200 and sends a part of the body, then the connection is
  reset and the request emits \<open>error\<close>. The handler emits the \<open>error\<close> event and calls
  \<open>writeHead(502)\<close>, which throws \<open>ERR_HTTP_HEADERS_SENT\<close> inside the handler: the client
  keeps the status 200 and an unfinished body, no 502 is sent, and the exception is not
  caught.
\<close>

theorem transfer_failure_after_head:
  "uncaught (run sample_platform (boot None empty_disk) reset_session) = Some ''ERR_HTTP_HEADERS_SENT'' \<and>
   events (run sample_platform (boot None empty_disk) reset_session) ! 1 = ErrorEv ''req_1'' ''read ECONNRESET'' \<and>
   (case conns (run sample_platform (boot None empty_disk) reset_session) ! 0 of
      Plain c \<Rightarrow> statusCode (clientRes c) = Some 200 \<and> written (clientRes c) = [''partial''] \<and>
                 \<not> finished (clientRes c)
    | _ \<Rightarrow> False)"
  by code_simp

end
